theory Spec2Isabelle
  imports Complex_Main "HOL-Library.Multiset"
begin

chapter \<open>The model\<close>

section \<open>Draws\<close>

text \<open>
  A row of the \<^verbatim>\<open>draws\<close> table as the JavaScript sees it.  \<^verbatim>\<open>draw_date\<close> is a
  calendar date (\<^verbatim>\<open>YYYY-MM-DD\<close>), kept here as the number of days since 1970-01-01, so
  that \<^verbatim>\<open>new Date(d.draw_date)\<close> is midnight UTC of that day.  A column that is
  \<^verbatim>\<open>null\<close> is \<open>None\<close>; the number columns hold non-negative integers (the table
  constrains them to 1..90).
\<close>

record draw =
  draw_date :: int
  draw_type_id :: "int option"
  winning_number_1 :: "nat option"
  winning_number_2 :: "nat option"
  winning_number_3 :: "nat option"
  winning_number_4 :: "nat option"
  winning_number_5 :: "nat option"
  machine_number_1 :: "nat option"
  machine_number_2 :: "nat option"
  machine_number_3 :: "nat option"
  machine_number_4 :: "nat option"
  machine_number_5 :: "nat option"

text \<open>The \<^verbatim>\<open>type\<close> argument: the string \<^verbatim>\<open>'machine'\<close> or anything else (\<^verbatim>\<open>'winning'\<close>).\<close>

datatype stream = Winning | Machine

text \<open>
  \<^verbatim>\<open>extractNumbers\<close> (backtester.js): the five columns of the stream, without the
  \<^verbatim>\<open>null\<close>s; \<^verbatim>\<open>parseInt\<close> is the identity on the integers the columns hold.
\<close>

definition columns :: "'a draw_scheme \<Rightarrow> stream \<Rightarrow> nat option list" where
  "columns d ty =
     (case ty of
        Machine \<Rightarrow> [machine_number_1 d, machine_number_2 d, machine_number_3 d,
                    machine_number_4 d, machine_number_5 d]
      | Winning \<Rightarrow> [winning_number_1 d, winning_number_2 d, winning_number_3 d,
                    winning_number_4 d, winning_number_5 d])"

definition extractNumbers :: "'a draw_scheme \<Rightarrow> stream \<Rightarrow> nat list" where
  "extractNumbers d ty = map the (filter (\<lambda>n. n \<noteq> None) (columns d ty))"

section \<open>Learn: the leakage guard\<close>

text \<open>
  The first statement of \<^verbatim>\<open>learn\<close> (brain.js) after loading the brain:
  \<^verbatim>\<open>allDraws.filter(d => !extractNumbers(d, type).every(n => actualDraw.includes(n)))\<close>.
\<close>

definition trainingData :: "nat list \<Rightarrow> 'a draw_scheme list \<Rightarrow> stream \<Rightarrow> 'a draw_scheme list" where
  "trainingData actualDraw allDraws ty =
     filter (\<lambda>d. \<not> list_all (\<lambda>n. n \<in> set actualDraw) (extractNumbers d ty)) allDraws"

definition col :: "nat option list \<Rightarrow> nat \<Rightarrow> nat option" where
  "col xs i = (if i < length xs then xs ! i else None)"

definition exampleDraw :: "int \<Rightarrow> int option \<Rightarrow> nat option list \<Rightarrow> nat option list \<Rightarrow> draw" where
  "exampleDraw day ty w m =
     \<lparr> draw_date = day, draw_type_id = ty,
       winning_number_1 = col w 0, winning_number_2 = col w 1, winning_number_3 = col w 2,
       winning_number_4 = col w 3, winning_number_5 = col w 4,
       machine_number_1 = col m 0, machine_number_2 = col m 1, machine_number_3 = col m 2,
       machine_number_4 = col m 3, machine_number_5 = col m 4 \<rparr>"

section \<open>JavaScript numbers, sorting and objects\<close>

text \<open>
  A JavaScript number is a double.  The model keeps the finite values as exact rationals
  (no rounding of the arithmetic, no distinction between the two zeros) and has the three
  special values.  \<^verbatim>\<open>undefined\<close> in arithmetic behaves as \<open>NaN\<close>.
\<close>

datatype jsnum = Num rat | PInf | NInf | NaN

fun jadd :: "jsnum \<Rightarrow> jsnum \<Rightarrow> jsnum" where
  "jadd (Num a) (Num b) = Num (a + b)"
| "jadd NaN _ = NaN"
| "jadd _ NaN = NaN"
| "jadd PInf NInf = NaN"
| "jadd NInf PInf = NaN"
| "jadd PInf _ = PInf"
| "jadd _ PInf = PInf"
| "jadd NInf _ = NInf"
| "jadd _ NInf = NInf"

fun jneg :: "jsnum \<Rightarrow> jsnum" where
  "jneg (Num a) = Num (- a)"
| "jneg PInf = NInf"
| "jneg NInf = PInf"
| "jneg NaN = NaN"

definition jsub :: "jsnum \<Rightarrow> jsnum \<Rightarrow> jsnum" where
  "jsub a b = jadd a (jneg b)"

text \<open>The sign of a value that is not \<open>NaN\<close>: \<open>1\<close>, \<open>0\<close> or \<open>-1\<close>.\<close>

fun jsign :: "jsnum \<Rightarrow> int" where
  "jsign (Num a) = (if a > 0 then 1 else if a < 0 then - 1 else 0)"
| "jsign PInf = 1"
| "jsign NInf = - 1"
| "jsign NaN = 0"

definition signedInf :: "int \<Rightarrow> jsnum" where
  "signedInf s = (if s > 0 then PInf else if s < 0 then NInf else NaN)"

fun jmul :: "jsnum \<Rightarrow> jsnum \<Rightarrow> jsnum" where
  "jmul (Num a) (Num b) = Num (a * b)"
| "jmul NaN _ = NaN"
| "jmul _ NaN = NaN"
| "jmul a b = signedInf (jsign a * jsign b)"

fun jdiv :: "jsnum \<Rightarrow> jsnum \<Rightarrow> jsnum" where
  "jdiv (Num a) (Num b) = (if b = 0 then signedInf (jsign (Num a)) else Num (a / b))"
| "jdiv NaN _ = NaN"
| "jdiv _ NaN = NaN"
| "jdiv (Num a) _ = Num 0"
| "jdiv a (Num b) = signedInf (jsign a * (if b < 0 then - 1 else 1))"
| "jdiv _ _ = NaN"

text \<open>The comparisons \<^verbatim>\<open>a > b\<close> and \<^verbatim>\<open>a >= b\<close>; both are false when an operand is \<open>NaN\<close>.\<close>

fun jgt :: "jsnum \<Rightarrow> jsnum \<Rightarrow> bool" where
  "jgt (Num a) (Num b) = (a > b)"
| "jgt NaN _ = False"
| "jgt _ NaN = False"
| "jgt PInf b = (b \<noteq> PInf)"
| "jgt NInf _ = False"
| "jgt (Num a) PInf = False"
| "jgt (Num a) NInf = True"



definition jmin :: "jsnum \<Rightarrow> jsnum \<Rightarrow> jsnum" where
  "jmin a b = (if a = NaN \<or> b = NaN then NaN else if jgt a b then b else a)"

text \<open>A number is truthy unless it is zero or \<open>NaN\<close>; \<^verbatim>\<open>x || d\<close> on an optional number.\<close>

fun truthy :: "jsnum \<Rightarrow> bool" where
  "truthy (Num a) = (a \<noteq> 0)"
| "truthy NaN = False"
| "truthy _ = True"

definition orDefault :: "jsnum option \<Rightarrow> jsnum \<Rightarrow> jsnum" where
  "orDefault x d = (case x of None \<Rightarrow> d | Some v \<Rightarrow> if truthy v then v else d)"

text \<open>A property read used in arithmetic: a missing property is \<^verbatim>\<open>undefined\<close>.\<close>

definition orNaN :: "jsnum option \<Rightarrow> jsnum" where
  "orNaN x = (case x of None \<Rightarrow> NaN | Some v \<Rightarrow> v)"

text \<open>
  \<^verbatim>\<open>parseFloat(x.toFixed(d))\<close>: the nearest multiple of \<open>10\<^sup>-\<^sup>d\<close>, a tie going away
  from zero; the special values print and parse as themselves.
\<close>

definition roundTo :: "nat \<Rightarrow> rat \<Rightarrow> rat" where
  "roundTo d x = (if x < 0 then - 1 else 1) * of_int \<lfloor>\<bar>x\<bar> * 10 ^ d + 1 / 2\<rfloor> / 10 ^ d"

fun toFixed :: "nat \<Rightarrow> jsnum \<Rightarrow> jsnum" where
  "toFixed d (Num a) = Num (roundTo d a)"
| "toFixed d v = v"

text \<open>
  \<^verbatim>\<open>Array.prototype.sort(cmp)\<close> is a stable sort.  \<open>after a b\<close> says that the comparator
  is positive on \<open>(a, b)\<close>, that is, \<open>a\<close> has to come after \<open>b\<close>.
\<close>

fun insertBy :: "('a \<Rightarrow> 'a \<Rightarrow> bool) \<Rightarrow> 'a \<Rightarrow> 'a list \<Rightarrow> 'a list" where
  "insertBy after x [] = [x]"
| "insertBy after x (y # ys) = (if after x y then y # insertBy after x ys else x # y # ys)"

definition sortBy :: "('a \<Rightarrow> 'a \<Rightarrow> bool) \<Rightarrow> 'a list \<Rightarrow> 'a list" where
  "sortBy after xs = foldr (insertBy after) xs []"

text \<open>The comparator \<^verbatim>\<open>(a, b) => b - a\<close> on scores: descending order.\<close>

definition descending :: "jsnum \<Rightarrow> jsnum \<Rightarrow> bool" where
  "descending a b = jgt (jsub b a) (Num 0)"

text \<open>
  An object whose keys are non-negative integers, as the list \<^verbatim>\<open>Object.entries\<close>
  returns: integer keys come in ascending order.  \<open>assign k f o\<close> is
  \<^verbatim>\<open>o[k] = f(o[k])\<close>, where \<open>f\<close> sees \<open>None\<close> for a property that does not exist yet.
\<close>

type_synonym 'v jsobj = "(nat \<times> 'v) list"

definition assign :: "nat \<Rightarrow> ('v option \<Rightarrow> 'v) \<Rightarrow> 'v jsobj \<Rightarrow> 'v jsobj" where
  "assign k f obj =
     (case map_of obj k of
        Some v \<Rightarrow> map (\<lambda>(j, u). if j = k then (j, f (Some u)) else (j, u)) obj
      | None \<Rightarrow> insort_key fst (k, f None) obj)"

text \<open>\<^verbatim>\<open>o[k] += x\<close> on numbers.\<close>

definition addTo :: "nat \<Rightarrow> jsnum \<Rightarrow> jsnum jsobj \<Rightarrow> jsnum jsobj" where
  "addTo k x obj = assign k (\<lambda>old. jadd (orNaN old) x) obj"

section \<open>Selector\<close>

text \<open>
  \<^verbatim>\<open>selectTopNumbers\<close> (correlation-analyzer.js).  A candidate is the pair of
  \<^verbatim>\<open>number\<close> and \<^verbatim>\<open>score\<close>.
\<close>

type_synonym candidate = "nat \<times> jsnum"

definition decade :: "nat \<Rightarrow> int" where
  "decade n = (int n - 1) div 10"

definition rankScores :: "jsnum jsobj \<Rightarrow> candidate list" where
  "rankScores scores =
     sortBy (\<lambda>a b. descending (snd a) (snd b)) (map (\<lambda>(num, score). (num, toFixed 4 score)) scores)"

fun firstPass :: "nat \<Rightarrow> candidate list \<Rightarrow> candidate list \<Rightarrow> candidate list" where
  "firstPass cnt [] selected = selected"
| "firstPass cnt (c # ranked) selected =
     (if length selected \<ge> cnt then selected
      else if length (filter (\<lambda>n. decade (fst n) = decade (fst c)) selected) < 2
           then firstPass cnt ranked (selected @ [c])
           else firstPass cnt ranked selected)"

fun secondPass :: "nat \<Rightarrow> candidate list \<Rightarrow> candidate list \<Rightarrow> candidate list" where
  "secondPass cnt [] selected = selected"
| "secondPass cnt (c # ranked) selected =
     (if length selected \<ge> cnt then selected
      else if find (\<lambda>s. fst s = fst c) selected = None
           then secondPass cnt ranked (selected @ [c])
           else secondPass cnt ranked selected)"

definition selectTopNumbers :: "jsnum jsobj \<Rightarrow> nat \<Rightarrow> candidate list" where
  "selectTopNumbers scores cnt =
     (let ranked = rankScores scores
      in secondPass cnt ranked (firstPass cnt ranked []))"

text \<open>
  \<^verbatim>\<open>generatePredictions\<close> (server.js) has the same two loops inline, with the count 5, for
  the main and for the machine selection, and then sorts the numbers ascending.
\<close>

definition selectMain :: "jsnum jsobj \<Rightarrow> candidate list" where
  "selectMain numberScores =
     (let rankedNumbers = rankScores numberScores
      in secondPass 5 rankedNumbers (firstPass 5 rankedNumbers []))"

definition numbersOf :: "candidate list \<Rightarrow> nat list" where
  "numbersOf selected = sortBy (\<lambda>a b. a > b) (map fst selected)"

definition atMostTwoPerDecade :: "nat list \<Rightarrow> bool" where
  "atMostTwoPerDecade ns = (\<forall>d. length (filter (\<lambda>n. decade n = d) ns) \<le> 2)"

definition exampleScores :: "jsnum jsobj" where
  "exampleScores = map (\<lambda>n. (n, Num (of_nat (n mod 7) / 10))) [1..<91]"

section \<open>Correlation booster\<close>

text \<open>
  \<^verbatim>\<open>analyzeWinningMachineCorrelation\<close> (correlation-analyzer.js): the matrix
  \<^verbatim>\<open>{ machineNum: { winningNum: count } }\<close> over the draws that have five machine and
  five winning numbers.
\<close>

definition nonNull :: "nat option list \<Rightarrow> nat list" where
  "nonNull xs = map the (filter (\<lambda>n. n \<noteq> None) xs)"

definition countWinning :: "nat list \<Rightarrow> nat jsobj \<Rightarrow> nat jsobj" where
  "countWinning winningNums row =
     foldl (\<lambda>r winningNum. assign winningNum (\<lambda>old. (case old of None \<Rightarrow> 0 | Some c \<Rightarrow> c) + 1) r)
       row winningNums"

definition correlateDraw :: "nat jsobj jsobj \<Rightarrow> 'a draw_scheme \<Rightarrow> nat jsobj jsobj" where
  "correlateDraw correlations draw =
     (let machineNums = nonNull (columns draw Machine);
          winningNums = nonNull (columns draw Winning)
      in if length machineNums \<noteq> 5 \<or> length winningNums \<noteq> 5 then correlations
         else foldl (\<lambda>corr machineNum.
                 assign machineNum
                   (\<lambda>old. countWinning winningNums (case old of None \<Rightarrow> [] | Some row \<Rightarrow> row)) corr)
               correlations machineNums)"

definition analyzeWinningMachineCorrelation :: "'a draw_scheme list \<Rightarrow> nat jsobj jsobj" where
  "analyzeWinningMachineCorrelation draws = foldl correlateDraw [] draws"

text \<open>
  \<^verbatim>\<open>getTopCorrelatedWinning\<close>: the entries \<open>(number, count)\<close> of one machine number's
  row, sorted by \<^verbatim>\<open>b.count - a.count\<close>, the first \<open>topN\<close> of them.
\<close>

definition getTopCorrelatedWinning :: "nat jsobj jsobj \<Rightarrow> nat \<Rightarrow> nat \<Rightarrow> (nat \<times> nat) list" where
  "getTopCorrelatedWinning correlations machineNum topN =
     (let machineCorrelations = (case map_of correlations machineNum of None \<Rightarrow> [] | Some row \<Rightarrow> row)
      in take topN (sortBy (\<lambda>a b. snd b > snd a) machineCorrelations))"

text \<open>\<^verbatim>\<open>calculateCorrelationStrength\<close>; \<^verbatim>\<open>Math.max(...counts)\<close> of a non-empty row.\<close>

definition calculateCorrelationStrength :: "nat jsobj jsobj \<Rightarrow> nat list \<Rightarrow> rat" where
  "calculateCorrelationStrength correlations machinePrediction =
     (if machinePrediction = [] then 0
      else let (totalCorrelations, maxPossible) =
                 foldl (\<lambda>(total, maxP) machineNum.
                     (let counts = map snd (case map_of correlations machineNum of
                                              None \<Rightarrow> [] | Some row \<Rightarrow> row)
                      in if length counts > 0
                         then (total + Max (set counts), maxP + Max (set counts) * 2)
                         else (total, maxP)))
                   (0, 0) machinePrediction
           in if maxPossible > 0 then of_nat totalCorrelations / of_nat maxPossible else 0)"

text \<open>
  \<^verbatim>\<open>generateHybridPrediction\<close>.  The inner statement of its two loops is
  \<^verbatim>\<open>if (boostedScores[winNum]) { boostedScores[winNum] *= boostFactor; boostedNumbers.add(winNum) }\<close>;
  \<open>boostedNumbers\<close> is a \<^verbatim>\<open>Set\<close>, kept as the list of its elements in insertion order.
\<close>

record hybrid =
  boostedScores :: "jsnum jsobj"
  correlationStrength :: rat
  boostedNumbers :: "nat list"
  correlationMatrix :: "nat jsobj jsobj"

definition boostNumber :: "jsnum \<Rightarrow> jsnum jsobj \<times> nat list \<Rightarrow> nat \<Rightarrow> jsnum jsobj \<times> nat list" where
  "boostNumber boostFactor st winNum =
     (case st of (scores, boosted) \<Rightarrow>
        if truthy (orNaN (map_of scores winNum))
        then (assign winNum (\<lambda>old. jmul (orNaN old) boostFactor) scores,
              if winNum \<in> set boosted then boosted else boosted @ [winNum])
        else (scores, boosted))"

definition boostFor :: "nat jsobj jsobj \<Rightarrow> jsnum \<Rightarrow> jsnum jsobj \<times> nat list \<Rightarrow> nat \<Rightarrow> jsnum jsobj \<times> nat list" where
  "boostFor correlations boostFactor st machineNum =
     foldl (boostNumber boostFactor) st (map fst (getTopCorrelatedWinning correlations machineNum 10))"

definition generateHybridPrediction ::
    "'a draw_scheme list \<Rightarrow> jsnum jsobj \<Rightarrow> nat list \<Rightarrow> jsnum \<Rightarrow> hybrid" where
  "generateHybridPrediction draws mainScores machinePrediction boostFactor =
     (let correlations = analyzeWinningMachineCorrelation draws;
          (scores, boosted) = foldl (boostFor correlations boostFactor) (mainScores, []) machinePrediction
      in \<lparr> boostedScores = scores,
           correlationStrength = calculateCorrelationStrength correlations machinePrediction,
           boostedNumbers = boosted,
           correlationMatrix = correlations \<rparr>)"

text \<open>The number of predicted machine numbers whose top 10 contains \<open>w\<close>.\<close>

definition recommenders :: "nat jsobj jsobj \<Rightarrow> nat list \<Rightarrow> nat \<Rightarrow> nat" where
  "recommenders correlations machinePrediction w =
     length (filter (\<lambda>machineNum. w \<in> fst ` set (getTopCorrelatedWinning correlations machineNum 10))
               machinePrediction)"

definition uniformScores :: "jsnum jsobj" where
  "uniformScores = map (\<lambda>n. (n, Num 1)) [1..<91]"

definition twoDraws :: "draw list" where
  "twoDraws =
     [exampleDraw 1 (Some 1) [Some 17, Some 2, Some 3, Some 4, Some 5]
                             [Some 10, Some 21, Some 31, Some 41, Some 51],
      exampleDraw 2 (Some 1) [Some 17, Some 6, Some 7, Some 8, Some 9]
                             [Some 20, Some 22, Some 32, Some 42, Some 52]]"

text \<open>Every row of a correlation matrix has each winning number once.\<close>

definition rowsDistinct :: "nat jsobj jsobj \<Rightarrow> bool" where
  "rowsDistinct corr = (\<forall>m row. map_of corr m = Some row \<longrightarrow> distinct (map fst row))"

section \<open>Draw store adapter\<close>

text \<open>
  \<^verbatim>\<open>getDrawsData\<close> (server.js).  A reply of the store is \<^verbatim>\<open>{ data, error }\<close>
  (the fields \<open>reply_data\<close> and \<open>reply_error\<close>; the fields of \<^verbatim>\<open>DATA_CACHE\<close> are
  \<open>cache_draws\<close> and \<open>cache_timestamp\<close>).  The
  store answers two queries: the 5000 newest draws, newest first, and all draws in
  chronological order, of one draw type when the query carries \<^verbatim>\<open>.eq('draw_type_id', id)\<close>.
\<close>

record reply =
  reply_data :: "draw list option"
  reply_error :: "string option"

record store =
  selectNewest :: reply
  selectChronological :: "int option \<Rightarrow> reply"

text \<open>
  The argument \<^verbatim>\<open>drawTypeId\<close>: a falsy value such as \<^verbatim>\<open>null\<close> (\<open>NoType\<close>), the string
  \<^verbatim>\<open>'all'\<close>, or a truthy value that is loosely equal (\<^verbatim>\<open>==\<close>) to the integer id of a
  draw type.
\<close>

datatype type_filter = NoType | AllTypes | TypeId int

text \<open>A draw as the adapter returns it, with the field \<^verbatim>\<open>numbers_drawn\<close> added.\<close>

record cached_draw = draw +
  numbers_drawn :: "nat list"

definition withNumbersDrawn :: "draw \<Rightarrow> cached_draw" where
  "withNumbersDrawn d =
     draw.extend d (cached_draw.fields (nonNull (columns d Winning)))"

record data_cache =
  cache_draws :: "cached_draw list option"
  cache_timestamp :: int

definition TTL :: int where
  "TTL = 60 * 60 * 1000"

datatype exn = Error string | TypeError | SyntaxError

definition wantsType :: "type_filter \<Rightarrow> int option" where
  "wantsType drawTypeId = (case drawTypeId of TypeId i \<Rightarrow> Some i | _ \<Rightarrow> None)"

text \<open>
  Step 1: refresh the global cache when it is empty or expired.  The reset of
  \<^verbatim>\<open>predictionCache\<close> in the same branch touches no value read here and is left out.
\<close>

definition refreshCache :: "int \<Rightarrow> store \<Rightarrow> data_cache \<Rightarrow> data_cache" where
  "refreshCache now st cache =
     (if cache_draws cache = None \<or> now - cache_timestamp cache > TTL
      then (case (reply_error (selectNewest st), reply_data (selectNewest st)) of
              (None, Some rows) \<Rightarrow> \<lparr> cache_draws = Some (map withNumbersDrawn (rev rows)), cache_timestamp = now \<rparr>
            | _ \<Rightarrow> cache)
      else cache)"

text \<open>Step 3: the direct fetch.\<close>

definition directFetch :: "store \<Rightarrow> type_filter \<Rightarrow> exn + cached_draw list" where
  "directFetch st drawTypeId =
     (let r = selectChronological st (wantsType drawTypeId)
      in if reply_error r \<noteq> None then Inl (Error ''Failed to fetch draws data'')
         else (case reply_data r of None \<Rightarrow> Inl TypeError | Some rows \<Rightarrow> Inr (map withNumbersDrawn rows)))"

text \<open>The whole function: what it returns or throws, and the cache it leaves.\<close>

definition getDrawsData ::
    "int \<Rightarrow> store \<Rightarrow> data_cache \<Rightarrow> type_filter \<Rightarrow> (exn + cached_draw list) \<times> data_cache" where
  "getDrawsData now st cache0 drawTypeId =
     (let cache = refreshCache now st cache0
      in case cache_draws cache of
           Some cached \<Rightarrow>
             (let result = (case wantsType drawTypeId of
                              Some i \<Rightarrow> filter (\<lambda>d. draw_type_id d = Some i) cached
                            | None \<Rightarrow> cached)
              in if length result > 0 then (Inr result, cache)
                 else (directFetch st drawTypeId, cache))
         | None \<Rightarrow> (directFetch st drawTypeId, cache))"

text \<open>A store that is down: every query is answered with an error and no data.\<close>

definition failingStore :: store where
  "failingStore =
     \<lparr> selectNewest = \<lparr> reply_data = None, reply_error = Some ''fetch failed'' \<rparr>,
       selectChronological = (\<lambda>_. \<lparr> reply_data = None, reply_error = Some ''fetch failed'' \<rparr>) \<rparr>"

definition emptyCache :: data_cache where
  "emptyCache = \<lparr> cache_draws = None, cache_timestamp = 0 \<rparr>"

section \<open>Evaluation request\<close>

text \<open>
  \<^verbatim>\<open>handleEvaluationRequest\<close> (server.js).  The body of the request is what
  \<^verbatim>\<open>JSON.parse\<close> makes of it, \<open>None\<close> when it throws.  Of the response the model keeps
  the status and the \<^verbatim>\<open>error\<close> message; the payload of a 200 response is left out.
\<close>

datatype json = JNull | JBool bool | JNumber rat | JString string | JArray "json list"
  | JObject "(string \<times> json) list"









definition cacheOf :: "draw list \<Rightarrow> data_cache" where
  "cacheOf ds = \<lparr> cache_draws = Some (map withNumbersDrawn ds), cache_timestamp = 0 \<rparr>"

section \<open>Verification loop\<close>

text \<open>
  \<^verbatim>\<open>verifyPredictions\<close> (server.js).  An entry of the prediction history; its
  \<^verbatim>\<open>timestamp\<close> (an ISO string) is kept as milliseconds since 1970-01-01 UTC, which is what
  \<^verbatim>\<open>new Date(pred.timestamp)\<close> compares and subtracts.  The fields of an entry carry the
  prefix \<open>pred_\<close>, those of a stored result the prefix \<open>out_\<close>.
\<close>

record outcome =
  out_drawDate :: "int option"
  out_actual :: "nat option list"
  out_matchCount :: nat
  out_matches :: "nat list"
  out_nearMisses :: "nat list"

record prediction =
  pred_timestamp :: int
  pred_drawTypeId :: "int option"
  pred_predictedNumbers :: "nat list"
  pred_machineNumbers :: "nat list option"
  pred_hybridNumbers :: "nat list option"
  pred_result :: "outcome option"
  pred_machineResult :: "outcome option"
  pred_hybridResult :: "outcome option"

definition msPerDay :: int where
  "msPerDay = 24 * 60 * 60 * 1000"

text \<open>\<^verbatim>\<open>new Date(d.draw_date)\<close> in milliseconds, and \<^verbatim>\<open>predDate.toISOString().split('T')[0]\<close> as a day.\<close>

definition dateMs :: "'a draw_scheme \<Rightarrow> int" where
  "dateMs d = draw_date d * msPerDay"

definition isoDay :: "int \<Rightarrow> int" where
  "isoDay ms = ms div msPerDay"

text \<open>The predicate given to \<^verbatim>\<open>recentDraws.find\<close>.\<close>

definition isTarget :: "prediction \<Rightarrow> 'a draw_scheme \<Rightarrow> bool" where
  "isTarget pred d =
     (if draw_type_id d \<noteq> pred_drawTypeId pred then False
      else dateMs d \<ge> pred_timestamp pred \<or> draw_date d = isoDay (pred_timestamp pred))"

definition diffHours :: "'a draw_scheme \<Rightarrow> prediction \<Rightarrow> rat" where
  "diffHours targetDraw pred = of_int (dateMs targetDraw - pred_timestamp pred) / (1000 * 60 * 60)"

text \<open>
  Exact matches and near misses of a predicted list against the actual numbers;
  a \<^verbatim>\<open>null\<close> among the actual numbers counts as 0 in \<^verbatim>\<open>Math.abs(a - n)\<close>.
\<close>

definition exactMatches :: "nat list \<Rightarrow> nat option list \<Rightarrow> nat list" where
  "exactMatches predicted act = filter (\<lambda>n. Some n \<in> set act) predicted"

definition nearMissesOf :: "nat list \<Rightarrow> nat option list \<Rightarrow> nat list" where
  "nearMissesOf predicted act =
     filter (\<lambda>n. if Some n \<in> set act then False
                 else list_ex (\<lambda>a. \<bar>int (case a of None \<Rightarrow> 0 | Some x \<Rightarrow> x) - int n\<bar> = 1) act)
       predicted"

definition outcomeOf :: "int option \<Rightarrow> nat list \<Rightarrow> nat option list \<Rightarrow> outcome" where
  "outcomeOf day predicted act =
     \<lparr> out_drawDate = day, out_actual = act,
       out_matchCount = length (exactMatches predicted act),
       out_matches = exactMatches predicted act,
       out_nearMisses = nearMissesOf predicted act \<rparr>"

definition truthyColumn :: "nat option \<Rightarrow> bool" where
  "truthyColumn c = (case c of None \<Rightarrow> False | Some n \<Rightarrow> n \<noteq> 0)"

text \<open>The body of the loop \<^verbatim>\<open>for (const pred of unverified)\<close>.\<close>

definition attribute :: "'a draw_scheme \<Rightarrow> prediction \<Rightarrow> prediction" where
  "attribute targetDraw pred =
     (let act = columns targetDraw Winning;
          p1 = pred\<lparr> pred_result := Some (outcomeOf (Some (draw_date targetDraw)) (pred_predictedNumbers pred) act) \<rparr>;
          p2 = (case pred_machineNumbers pred of
                  Some ms \<Rightarrow>
                    if truthyColumn (machine_number_1 targetDraw)
                       \<and> length (nonNull (columns targetDraw Machine)) = 5
                    then p1\<lparr> pred_machineResult :=
                             Some (outcomeOf None ms (map Some (nonNull (columns targetDraw Machine)))) \<rparr>
                    else p1
                | None \<Rightarrow> p1)
      in (case pred_hybridNumbers pred of
            Some hs \<Rightarrow>
              if truthyColumn (winning_number_1 targetDraw)
              then p2\<lparr> pred_hybridResult := Some (outcomeOf None hs act) \<rparr>
              else p2
          | None \<Rightarrow> p2))"

definition verifyEntry :: "'a draw_scheme list \<Rightarrow> prediction \<Rightarrow> prediction" where
  "verifyEntry recentDraws pred =
     (if pred_result pred \<noteq> None then pred
      else case find (isTarget pred) recentDraws of
             None \<Rightarrow> pred
           | Some targetDraw \<Rightarrow>
               if diffHours targetDraw pred \<ge> - 24 \<and> diffHours targetDraw pred < 72
               then attribute targetDraw pred
               else pred)"

text \<open>
  The entries the loop looks at: without a result and newer than seven days.
  \<open>recentDraws\<close> is the answer of the store to the query for the draws with
  \<^verbatim>\<open>draw_date >= sevenDaysAgo\<close>, ordered by \<^verbatim>\<open>draw_date\<close> descending (\<open>None\<close> for
  \<^verbatim>\<open>null\<close>).  The function returns the history it writes back.  The throttle (one run
  per minute unless forced) and the reading and writing of the history file are left out.
\<close>

definition isUnverified :: "int \<Rightarrow> prediction \<Rightarrow> bool" where
  "isUnverified now p = (pred_result p = None \<and> pred_timestamp p > now - 7 * msPerDay)"

definition verifyHistory :: "int \<Rightarrow> 'a draw_scheme list option \<Rightarrow> prediction list \<Rightarrow> prediction list" where
  "verifyHistory now recent history =
     (if filter (isUnverified now) history = [] then history
      else case recent of
             None \<Rightarrow> history
           | Some recentDraws \<Rightarrow>
               if recentDraws = [] then history
               else map (\<lambda>p. if isUnverified now p then verifyEntry recentDraws p else p) history)"

text \<open>Draws newest first, as the query orders them.\<close>

definition newestFirst :: "'a draw_scheme list \<Rightarrow> bool" where
  "newestFirst ds = sorted_wrt (\<lambda>a b. draw_date a \<ge> draw_date b) ds"

text \<open>
  An example: a prediction for draw type 1 made on day 100 at noon, and the draws of type 1
  of day 105 and of day 101.
\<close>

definition examplePrediction :: prediction where
  "examplePrediction =
     \<lparr> pred_timestamp = 100 * msPerDay + 12 * 60 * 60 * 1000, pred_drawTypeId = Some 1,
       pred_predictedNumbers = [7, 15, 23, 42, 71], pred_machineNumbers = None, pred_hybridNumbers = None,
       pred_result = None, pred_machineResult = None, pred_hybridResult = None \<rparr>"

definition drawDay105 :: draw where
  "drawDay105 = exampleDraw 105 (Some 1) [Some 1, Some 2, Some 3, Some 4, Some 5] []"

definition drawDay101 :: draw where
  "drawDay101 = exampleDraw 101 (Some 1) [Some 7, Some 16, Some 30, Some 42, Some 80] []"

section \<open>Pairwise correlation\<close>

text \<open>
  An object whose keys are not integers keeps them in insertion order: a new key goes to
  the end.  The keys \<^verbatim>\<open>`${a}-${b}`\<close> of the pair counters are kept as the pairs \<open>(a, b)\<close>.
\<close>

definition assignNew :: "'k \<Rightarrow> ('v option \<Rightarrow> 'v) \<Rightarrow> ('k \<times> 'v) list \<Rightarrow> ('k \<times> 'v) list" where
  "assignNew k f obj =
     (case map_of obj k of
        Some v \<Rightarrow> map (\<lambda>(j, u). if j = k then (j, f (Some u)) else (j, u)) obj
      | None \<Rightarrow> obj @ [(k, f None)])"

text \<open>\<^verbatim>\<open>o[k] = (o[k] || 0) + 1\<close>\<close>

definition increment :: "nat option \<Rightarrow> nat" where
  "increment old = (case old of None \<Rightarrow> 0 | Some c \<Rightarrow> c) + 1"

text \<open>The pairs \<open>(xs[i], xs[j])\<close> with \<open>i < j\<close>, in the order of the two nested loops.\<close>

fun pairsOf :: "nat list \<Rightarrow> (nat \<times> nat) list" where
  "pairsOf [] = []"
| "pairsOf (x # xs) = map (\<lambda>y. (x, y)) xs @ pairsOf xs"

definition ascending :: "nat list \<Rightarrow> nat list" where
  "ascending xs = sortBy (\<lambda>a b. a > b) xs"

text \<open>
  \<^verbatim>\<open>calculateLift\<close> (statistical-analyzer.js), on draws given as lists of numbers.
  \<open>numOf\<close> reads a counter for arithmetic.
\<close>

record lift_entry =
  le_lift :: jsnum
  le_count :: nat
  le_a :: nat
  le_b :: nat

definition numOf :: "nat option \<Rightarrow> jsnum" where
  "numOf c = (case c of None \<Rightarrow> NaN | Some n \<Rightarrow> Num (of_nat n))"

definition countDraw :: "nat jsobj \<times> ((nat \<times> nat) \<times> nat) list \<Rightarrow> nat list
    \<Rightarrow> nat jsobj \<times> ((nat \<times> nat) \<times> nat) list" where
  "countDraw acc numbers =
     (case acc of (freq, pairFreq) \<Rightarrow>
        (let sorted = ascending numbers
         in (foldl (\<lambda>fr n. assign n increment fr) freq sorted,
             foldl (\<lambda>pf key. assignNew key increment pf) pairFreq (pairsOf sorted))))"

definition liftOf :: "nat \<Rightarrow> nat jsobj \<Rightarrow> (nat \<times> nat) \<Rightarrow> nat \<Rightarrow> jsnum" where
  "liftOf totalDraws freq pair cnt =
     jdiv (Num (of_nat (cnt * totalDraws)))
          (jmul (numOf (map_of freq (fst pair))) (numOf (map_of freq (snd pair))))"

definition keepLift :: "nat \<Rightarrow> nat jsobj \<Rightarrow> ((nat \<times> nat) \<times> lift_entry) list \<Rightarrow> (nat \<times> nat) \<times> nat
    \<Rightarrow> ((nat \<times> nat) \<times> lift_entry) list" where
  "keepLift totalDraws freq lifts entry =
     (case entry of (pair, cnt) \<Rightarrow>
        (let lift = liftOf totalDraws freq pair cnt
         in if cnt \<ge> 3 \<and> jgt lift (Num (12 / 10))
            then assignNew pair
                   (\<lambda>_. \<lparr> le_lift = toFixed 3 lift, le_count = cnt, le_a = fst pair, le_b = snd pair \<rparr>)
                   lifts
            else lifts))"

definition calculateLift :: "nat list list \<Rightarrow> ((nat \<times> nat) \<times> lift_entry) list" where
  "calculateLift draws =
     (let totalDraws = length draws
      in if totalDraws < 10 then []
         else (case foldl countDraw ([], []) draws of
                 (freq, pairFreq) \<Rightarrow> foldl (keepLift totalDraws freq) [] pairFreq))"

text \<open>
  \<^verbatim>\<open>analyzeCorrelations\<close> (advanced-analyzer.js): the 20 most frequent pairs.  The numbers of
  a draw are \<^verbatim>\<open>getNumbers(draw, type).filter(n => n).sort((a, b) => a - b)\<close>;
  \<^verbatim>\<open>getNumbers\<close> is the same function as \<^verbatim>\<open>extractNumbers\<close>.  The triple counts, which
  the correlation strategy does not read, are left out.
\<close>

record top_pair =
  tp_numbers :: "nat list"
  tp_count :: nat
  tp_percentage :: jsnum

definition pairCounts :: "'a draw_scheme list \<Rightarrow> stream \<Rightarrow> ((nat \<times> nat) \<times> nat) list" where
  "pairCounts draws ty =
     foldl (\<lambda>pc draw.
         foldl (\<lambda>pc' key. assignNew key increment pc') pc
           (pairsOf (ascending (filter (\<lambda>n. n \<noteq> 0) (extractNumbers draw ty)))))
       [] draws"

definition topPairs :: "'a draw_scheme list \<Rightarrow> stream \<Rightarrow> top_pair list" where
  "topPairs draws ty =
     map (\<lambda>(pair, cnt).
            \<lparr> tp_numbers = [fst pair, snd pair], tp_count = cnt,
              tp_percentage =
                toFixed 2 (jmul (jdiv (Num (of_nat cnt)) (Num (of_nat (length draws)))) (Num 100)) \<rparr>)
       (take 20 (sortBy (\<lambda>a b. snd b > snd a) (pairCounts draws ty)))"

text \<open>
  \<^verbatim>\<open>strategyCorrelationBased\<close> (backtester.js): walk the top pairs and add both members
  to a \<^verbatim>\<open>Set\<close> until it has \<open>count\<close> elements.
\<close>

fun addMembers :: "nat \<Rightarrow> nat list \<Rightarrow> nat list \<Rightarrow> nat list" where
  "addMembers cnt [] selected = selected"
| "addMembers cnt (num # nums) selected =
     (let selected' = (if num \<in> set selected then selected else selected @ [num])
      in if length selected' \<ge> cnt then selected' else addMembers cnt nums selected')"

fun walkPairs :: "nat \<Rightarrow> top_pair list \<Rightarrow> nat list \<Rightarrow> nat list" where
  "walkPairs cnt [] selected = selected"
| "walkPairs cnt (pair # pairs) selected =
     (let selected' = addMembers cnt (tp_numbers pair) selected
      in if length selected' \<ge> cnt then selected' else walkPairs cnt pairs selected')"

definition strategyCorrelationBased :: "'a draw_scheme list \<Rightarrow> nat \<Rightarrow> stream \<Rightarrow> nat list" where
  "strategyCorrelationBased draws cnt ty =
     ascending (take cnt (walkPairs cnt (topPairs draws ty) []))"

text \<open>
  The quantities of the lift formula, read off the draws: how often a number occurs, and how
  often a pair occurs as a pair of two positions of one (sorted) draw.
\<close>

definition occurrences :: "nat list list \<Rightarrow> nat \<Rightarrow> nat" where
  "occurrences draws n = count_list (concat (map ascending draws)) n"

definition cooccurrences :: "nat list list \<Rightarrow> nat \<times> nat \<Rightarrow> nat" where
  "cooccurrences draws pair = count_list (concat (map (\<lambda>d. pairsOf (ascending d)) draws)) pair"

definition oneDraw :: "draw list" where
  "oneDraw = [exampleDraw 1 (Some 1) [Some 1, Some 2, Some 3, Some 4, Some 5] []]"

text \<open>
  \<open>counts obj xs\<close>: the counter object \<open>obj\<close> holds, for every key, the number of its
  occurrences in \<open>xs\<close> (and no entry for a key that does not occur).
\<close>

definition counts :: "('k \<times> nat) list \<Rightarrow> 'k list \<Rightarrow> bool" where
  "counts obj xs = (\<forall>k. map_of obj k = (if count_list xs k = 0 then None else Some (count_list xs k)))"

text \<open>The entry stored for a kept pair, and the test that keeps it.\<close>

definition liftEntry :: "nat \<Rightarrow> nat jsobj \<Rightarrow> (nat \<times> nat) \<times> nat \<Rightarrow> (nat \<times> nat) \<times> lift_entry" where
  "liftEntry tot freq entry =
     (fst entry, \<lparr> le_lift = toFixed 3 (liftOf tot freq (fst entry) (snd entry)),
                   le_count = snd entry, le_a = fst (fst entry), le_b = snd (fst entry) \<rparr>)"

definition kept :: "nat \<Rightarrow> nat jsobj \<Rightarrow> (nat \<times> nat) \<times> nat \<Rightarrow> bool" where
  "kept tot freq entry = (snd entry \<ge> 3 \<and> jgt (liftOf tot freq (fst entry) (snd entry)) (Num (12 / 10)))"

text \<open>The lift of a pair as a rational: \<open>count(a,b) * N / (count(a) * count(b))\<close>.\<close>

definition liftRatio :: "nat list list \<Rightarrow> nat \<times> nat \<Rightarrow> rat" where
  "liftRatio draws pair =
     of_nat (cooccurrences draws pair * length draws)
       / of_nat (occurrences draws (fst pair) * occurrences draws (snd pair))"

text \<open>Nine draws 1, 2, 3, 4, 5 and one draw 11, 12, 13, 14, 15.\<close>

definition tenDraws :: "draw list" where
  "tenDraws =
     replicate 9 (exampleDraw 1 (Some 1) [Some 1, Some 2, Some 3, Some 4, Some 5] [])
     @ [exampleDraw 2 (Some 1) [Some 11, Some 12, Some 13, Some 14, Some 15] []]"

section \<open>Ensemble scorer\<close>

text \<open>
  \<^verbatim>\<open>calculateNumberScores\<close> (brain.js).  The function first calls the cycle analysis and
  seven strategies on the draws; the model takes their results as arguments, so that every
  statement about it holds whatever the analysers return.  Of the statistics of a number
  the scorer reads \<^verbatim>\<open>cycleCount\<close> and \<^verbatim>\<open>dueScore\<close>.
\<close>

record cycle_stats =
  cs_cycleCount :: nat
  cs_dueScore :: jsnum

record strategy_lists =
  st_hot :: "nat list"
  st_position :: "nat list"
  st_correlation :: "nat list"
  st_balanced :: "nat list"
  st_statistical :: "nat list"
  st_finales :: "nat list"

text \<open>The weights object, by key; a missing key reads as \<^verbatim>\<open>undefined\<close>.\<close>

type_synonym weights = "(string \<times> jsnum) list"

text \<open>The two tables \<^verbatim>\<open>numberScores\<close> and \<^verbatim>\<open>strategyVotes\<close>, initialised for 1..90.\<close>

type_synonym tally = "jsnum jsobj \<times> nat jsobj"

definition initialTally :: tally where
  "initialTally = (map (\<lambda>i. (i, Num 0)) [1..<91], map (\<lambda>i. (i, 0)) [1..<91])"

definition addVote :: "nat \<Rightarrow> nat jsobj \<Rightarrow> nat jsobj" where
  "addVote num strategyVotes = assign num increment strategyVotes"

text \<open>
  One \<^verbatim>\<open>forEach((x, idx) => { numberScores[num] += score; if (idx < 5) addVote(num) })\<close>.
\<close>

definition contribute :: "(nat \<Rightarrow> 'a \<Rightarrow> jsnum) \<Rightarrow> ('a \<Rightarrow> nat) \<Rightarrow> 'a list \<Rightarrow> tally \<Rightarrow> tally" where
  "contribute score num xs t =
     foldl (\<lambda>(numberScores, strategyVotes) (idx, x).
              (addTo (num x) (score idx x) numberScores,
               if idx < 5 then addVote (num x) strategyVotes else strategyVotes))
       t (enumerate 0 xs)"

text \<open>\<^verbatim>\<open>w * (15 - idx) / 15\<close>\<close>

definition rankShare :: "jsnum \<Rightarrow> nat \<Rightarrow> jsnum" where
  "rankShare w idx = jdiv (jmul w (Num (15 - of_nat idx))) (Num 15)"

definition dueNumbers :: "cycle_stats jsobj \<Rightarrow> (nat \<times> cycle_stats) list" where
  "dueNumbers cycles =
     take 15 (sortBy (\<lambda>a b. descending (cs_dueScore (snd a)) (cs_dueScore (snd b)))
                (filter (\<lambda>(_, stats). cs_cycleCount stats \<ge> 5) cycles))"

definition balancedMultiplier :: "nat \<Rightarrow> rat" where
  "balancedMultiplier idx = (if idx \<ge> 5 then 1 + 2 * (15 - of_nat idx) / 10 else 3)"

text \<open>Steps 1 to 8: the contributions of the strategies.\<close>

definition strategyScores :: "cycle_stats jsobj \<Rightarrow> strategy_lists \<Rightarrow> weights \<Rightarrow> nat list option \<Rightarrow> tally" where
  "strategyScores cycles strat ws lstm =
     (let t1 = contribute
                 (\<lambda>idx (_, stats).
                    jmul (rankShare (orNaN (map_of ws ''due'')) idx)
                         (jdiv (jmin (cs_dueScore stats) (Num 150)) (Num 150)))
                 fst (dueNumbers cycles) initialTally;
          t2 = contribute (\<lambda>idx _. rankShare (orNaN (map_of ws ''hot'')) idx) id (st_hot strat) t1;
          t3 = contribute (\<lambda>idx _. jmul (orNaN (map_of ws ''position'')) (Num 2)) id (st_position strat) t2;
          t4 = contribute (\<lambda>idx _. rankShare (orDefault (map_of ws ''correlation'') (Num (1 / 10))) idx) id
                 (st_correlation strat) t3;
          t5 = contribute (\<lambda>idx _. jmul (orNaN (map_of ws ''balanced'')) (Num (balancedMultiplier idx))) id
                 (st_balanced strat) t4;
          t6 = contribute (\<lambda>idx _. rankShare (orDefault (map_of ws ''statistical'') (Num (1 / 10))) idx) id
                 (st_statistical strat) t5;
          t7 = contribute (\<lambda>idx _. rankShare (orDefault (map_of ws ''finales'') (Num (1 / 10))) idx) id
                 (st_finales strat) t6
      in case lstm of
           None \<Rightarrow> t7
         | Some nums \<Rightarrow>
             if length nums > 0
             then contribute (\<lambda>idx _. rankShare (orDefault (map_of ws ''lstm'') (Num (15 / 100))) idx) id nums t7
             else t7)"

text \<open>Step 9: tactical neighbours.\<close>

definition topCandidates :: "jsnum jsobj \<Rightarrow> nat list" where
  "topCandidates numberScores =
     map fst (take 15 (sortBy (\<lambda>a b. descending (snd a) (snd b))
                         (filter (\<lambda>(_, score). jgt score (Num 0)) numberScores)))"

definition NEIGHBOR_WEIGHT :: rat where
  "NEIGHBOR_WEIGHT = 15 / 100"

definition neighborsOf :: "nat \<Rightarrow> nat list" where
  "neighborsOf num = (if num > 1 then [num - 1] else []) @ (if num < 90 then [num + 1] else [])"

definition spread :: "jsnum jsobj \<Rightarrow> nat \<Rightarrow> jsnum jsobj" where
  "spread numberScores num =
     (let currentScore = orNaN (map_of numberScores num);
          bonus = jmul currentScore (Num NEIGHBOR_WEIGHT)
      in foldl (\<lambda>scores neighbor. addTo neighbor bonus scores) numberScores (neighborsOf num))"

definition tacticalNeighbors :: "jsnum jsobj \<Rightarrow> jsnum jsobj" where
  "tacticalNeighbors numberScores = foldl spread numberScores (topCandidates numberScores)"

text \<open>Step 10: the synergy boost and the lone-wolf penalty, for \<open>i\<close> from 1 to 90.\<close>

definition scale :: "nat \<Rightarrow> rat \<Rightarrow> jsnum jsobj \<Rightarrow> jsnum jsobj" where
  "scale i factor numberScores = assign i (\<lambda>old. jmul (orNaN old) (Num factor)) numberScores"

definition synergyAt :: "nat jsobj \<Rightarrow> jsnum jsobj \<Rightarrow> nat \<Rightarrow> jsnum jsobj" where
  "synergyAt strategyVotes numberScores i =
     (case map_of strategyVotes i of
        None \<Rightarrow> numberScores
      | Some votes \<Rightarrow>
          (let boosted = (if votes \<ge> 5 then scale i (120 / 100) numberScores
                          else if votes \<ge> 3 then scale i (110 / 100) numberScores
                          else numberScores)
           in if votes = 0 \<and> jgt (orNaN (map_of boosted i)) (Num 2)
              then scale i (85 / 100) boosted else boosted))"

definition synergy :: "tally \<Rightarrow> jsnum jsobj" where
  "synergy t = foldl (synergyAt (snd t)) (fst t) [1..<91]"

definition calculateNumberScores :: "cycle_stats jsobj \<Rightarrow> strategy_lists \<Rightarrow> weights \<Rightarrow> nat list option \<Rightarrow> jsnum jsobj" where
  "calculateNumberScores cycles strat ws lstm =
     (let t = strategyScores cycles strat ws lstm
      in synergy (tacticalNeighbors (fst t), snd t))"

text \<open>An example: equal weights, no due numbers, two strategies that list 1, 2, 89, 90.\<close>

definition equalWeights :: weights where
  "equalWeights = map (\<lambda>k. (k, Num (125 / 1000)))
     [''hot'', ''due'', ''correlation'', ''position'', ''balanced'', ''statistical'', ''finales'', ''lstm'']"

definition edgeLists :: strategy_lists where
  "edgeLists = \<lparr> st_hot = [1, 2, 89, 90], st_position = [90, 1], st_correlation = [],
                 st_balanced = [], st_statistical = [], st_finales = [] \<rparr>"

text \<open>
  The shape of the score table while the scorer runs: the keys 1..90 exist, a key outside
  1..90 (created by a strategy that returned such a number) holds \<open>NaN\<close>, and no key
  occurs twice.
\<close>

definition scoreTable :: "jsnum jsobj \<Rightarrow> bool" where
  "scoreTable m = ((\<forall>k. 1 \<le> k \<and> k \<le> 90 \<longrightarrow> map_of m k \<noteq> None)
                 \<and> (\<forall>k v. map_of m k = Some v \<and> (k < 1 \<or> 90 < k) \<longrightarrow> v = NaN)
                 \<and> distinct (map fst m))"

definition outOfRangeLstm :: "nat list option" where
  "outOfRangeLstm = Some [0, 91, 95]"

section \<open>Brain: the weights\<close>






















chapter \<open>Properties\<close>

section \<open>The leakage guard of Learn\<close>

lemma extractNumbers_machine_empty:
  "machine_number_1 d = None \<Longrightarrow> machine_number_2 d = None \<Longrightarrow> machine_number_3 d = None \<Longrightarrow>
   machine_number_4 d = None \<Longrightarrow> machine_number_5 d = None \<Longrightarrow> extractNumbers d Machine = []"
  by (simp add: extractNumbers_def columns_def)

text \<open>
  C10.  The training set of Learn is exactly the draws whose extracted numbers for the
  learned stream are not all contained in \<open>actualDraw\<close>: a draw is removed as soon as its
  number set is a subset of the actual draw, equal to it or not.  For the machine stream a
  draw whose five machine columns are all \<^verbatim>\<open>null\<close> has the empty extracted set and is
  therefore never part of the training data.
\<close>

theorem learn_leakage_guard_subset:
  "set (trainingData actualDraw allDraws ty) =
     {d \<in> set allDraws. \<not> set (extractNumbers d ty) \<subseteq> set actualDraw}
   \<and> (\<forall>d \<in> set allDraws.
         machine_number_1 d = None \<and> machine_number_2 d = None \<and> machine_number_3 d = None \<and>
         machine_number_4 d = None \<and> machine_number_5 d = None
         \<longrightarrow> d \<notin> set (trainingData actualDraw allDraws Machine))"
proof
  show "set (trainingData actualDraw allDraws ty) =
     {d \<in> set allDraws. \<not> set (extractNumbers d ty) \<subseteq> set actualDraw}"
    by (auto simp: trainingData_def list_all_iff)
next
  show "\<forall>d \<in> set allDraws.
         machine_number_1 d = None \<and> machine_number_2 d = None \<and> machine_number_3 d = None \<and>
         machine_number_4 d = None \<and> machine_number_5 d = None
         \<longrightarrow> d \<notin> set (trainingData actualDraw allDraws Machine)"
    by (auto simp: trainingData_def extractNumbers_machine_empty)
qed

theorem learn_leakage_guard_subset_witness:
  "exampleDraw 20 (Some 1) [Some 7, Some 15, Some 23, Some 42, Some 71] []
     \<in> set [exampleDraw 20 (Some 1) [Some 7, Some 15, Some 23, Some 42, Some 71] [],
              exampleDraw 21 (Some 1) [Some 1, Some 2, Some 3, Some 4, Some 5]
                [Some 9, Some 8, Some 7, Some 6, Some 5]]
   \<and> machine_number_1 (exampleDraw 20 (Some 1) [Some 7, Some 15, Some 23, Some 42, Some 71] []) = None
   \<and> exampleDraw 20 (Some 1) [Some 7, Some 15, Some 23, Some 42, Some 71] []
     \<notin> set (trainingData [5, 6, 7, 8, 10]
              [exampleDraw 20 (Some 1) [Some 7, Some 15, Some 23, Some 42, Some 71] [],
               exampleDraw 21 (Some 1) [Some 1, Some 2, Some 3, Some 4, Some 5]
                 [Some 9, Some 8, Some 7, Some 6, Some 5]] Machine)
   \<and> trainingData [5, 6, 7, 8, 10]
        [exampleDraw 20 (Some 1) [Some 7, Some 15, Some 23, Some 42, Some 71] [],
         exampleDraw 21 (Some 1) [Some 1, Some 2, Some 3, Some 4, Some 5]
           [Some 9, Some 8, Some 7, Some 6, Some 5]] Machine
      = [exampleDraw 21 (Some 1) [Some 1, Some 2, Some 3, Some 4, Some 5]
           [Some 9, Some 8, Some 7, Some 6, Some 5]]"
  using learn_leakage_guard_subset
    [of "[5, 6, 7, 8, 10]"
        "[exampleDraw 20 (Some 1) [Some 7, Some 15, Some 23, Some 42, Some 71] [],
          exampleDraw 21 (Some 1) [Some 1, Some 2, Some 3, Some 4, Some 5]
            [Some 9, Some 8, Some 7, Some 6, Some 5]]" Machine]
  by (simp add: trainingData_def extractNumbers_def columns_def exampleDraw_def col_def)

section \<open>The selector\<close>

lemma mset_insertBy: "mset (insertBy after x ys) = add_mset x (mset ys)"
  by (induction ys) auto

lemma mset_sortBy: "mset (sortBy after xs) = mset xs"
  unfolding sortBy_def by (induction xs) (auto simp: mset_insertBy)

lemma mset_map_sortBy: "mset (map f (sortBy after xs)) = mset (map f xs)"
  by (metis mset_map mset_sortBy)

lemma mset_fst_rankScores: "mset (map fst (rankScores scores)) = mset (map fst scores)"
proof -
  have h: "map fst (map (\<lambda>(num, score). (num, toFixed 4 score)) scores) = map fst scores"
    by (induction scores) auto
  have "mset (map fst (rankScores scores))
      = mset (map fst (map (\<lambda>(num, score). (num, toFixed 4 score)) scores))"
    unfolding rankScores_def by (rule mset_map_sortBy)
  then show ?thesis by (simp only: h)
qed

lemma firstPass_prefix: "\<exists>zs. firstPass cnt ranked sel = sel @ zs \<and> set zs \<subseteq> set ranked"
proof (induction ranked arbitrary: sel)
  case Nil
  then show ?case by simp
next
  case (Cons c ranked)
  show ?case
  proof (cases "length sel \<ge> cnt")
    case True
    then show ?thesis by simp
  next
    case False
    note nf = this
    show ?thesis
    proof (cases "length (filter (\<lambda>n. decade (fst n) = decade (fst c)) sel) < 2")
      case True
      from Cons.IH[of "sel @ [c]"] obtain zs where
        "firstPass cnt ranked (sel @ [c]) = (sel @ [c]) @ zs" "set zs \<subseteq> set ranked" by blast
      with nf True show ?thesis by (intro exI[of _ "c # zs"]) auto
    next
      case False
      from Cons.IH[of sel] obtain zs where
        "firstPass cnt ranked sel = sel @ zs" "set zs \<subseteq> set ranked" by blast
      with nf False show ?thesis by (intro exI[of _ zs]) auto
    qed
  qed
qed

lemma firstPass_balanced:
  "atMostTwoPerDecade (map fst sel) \<Longrightarrow> atMostTwoPerDecade (map fst (firstPass cnt ranked sel))"
proof (induction ranked arbitrary: sel)
  case Nil
  then show ?case by simp
next
  case (Cons c ranked)
  have step: "atMostTwoPerDecade (map fst (sel @ [c]))"
    if "length (filter (\<lambda>n. decade (fst n) = decade (fst c)) sel) < 2"
    unfolding atMostTwoPerDecade_def
  proof
    fix d
    have "length (filter (\<lambda>n. decade n = d) (map fst sel)) \<le> 2"
      using Cons.prems by (simp add: atMostTwoPerDecade_def)
    moreover have "length (filter (\<lambda>n. decade n = decade (fst c)) (map fst sel)) < 2"
      using that by (simp add: filter_map comp_def)
    ultimately show "length (filter (\<lambda>n. decade n = d) (map fst (sel @ [c]))) \<le> 2"
      by (cases "decade (fst c) = d") auto
  qed
  show ?case
    using Cons.IH[of "sel @ [c]"] Cons.IH[of sel] Cons.prems step by auto
qed

lemma firstPass_length: "length sel \<le> cnt \<Longrightarrow> length (firstPass cnt ranked sel) \<le> cnt"
  by (induction ranked arbitrary: sel) auto

lemma firstPass_distinct:
  "distinct (map fst sel @ map fst ranked) \<Longrightarrow> distinct (map fst (firstPass cnt ranked sel))"
  by (induction ranked arbitrary: sel) auto

lemma firstPass_covers:
  "c \<in> set ranked \<Longrightarrow> length (firstPass cnt ranked sel) \<ge> cnt \<or>
     (\<exists>s \<in> set (firstPass cnt ranked sel). decade (fst s) = decade (fst c))"
proof (induction ranked arbitrary: sel)
  case Nil
  then show ?case by simp
next
  case (Cons a ranked)
  show ?case
  proof (cases "length sel \<ge> cnt")
    case True
    then show ?thesis by simp
  next
    case nf: False
    show ?thesis
    proof (cases "c = a")
      case False
      with Cons.prems have "c \<in> set ranked" by simp
      from Cons.IH[OF this, of "sel @ [a]"] Cons.IH[OF this, of sel] nf show ?thesis by auto
    next
      case True
      show ?thesis
      proof (cases "length (filter (\<lambda>n. decade (fst n) = decade (fst a)) sel) < 2")
        case t: True
        obtain zs where "firstPass cnt ranked (sel @ [a]) = (sel @ [a]) @ zs"
          using firstPass_prefix by blast
        with nf t True show ?thesis by auto
      next
        case f: False
        then have "filter (\<lambda>n. decade (fst n) = decade (fst a)) sel \<noteq> []" by auto
        then obtain s where "s \<in> set sel" "decade (fst s) = decade (fst a)"
          by (metis (mono_tags, lifting) filter_False)
        moreover obtain zs where "firstPass cnt ranked sel = sel @ zs"
          using firstPass_prefix by blast
        ultimately show ?thesis using nf f True by auto
      qed
    qed
  qed
qed

lemma secondPass_full: "length sel \<ge> cnt \<Longrightarrow> secondPass cnt ranked sel = sel"
  by (cases ranked) auto

lemma firstPass_five:
  assumes "{1, 11, 21, 31, 41} \<subseteq> fst ` set ranked"
  shows "length (firstPass 5 ranked []) = 5"
proof (rule ccontr)
  let ?res = "firstPass 5 ranked []"
  assume "length ?res \<noteq> 5"
  moreover have "length ?res \<le> 5" by (rule firstPass_length) simp
  ultimately have short: "\<not> 5 \<le> length ?res" by simp
  have cov: "decade n \<in> (decade \<circ> fst) ` set ?res" if "n \<in> {1, 11, 21, 31, 41}" for n
  proof -
    from that assms obtain c where c: "c \<in> set ranked" "fst c = n" by auto
    from firstPass_covers[OF c(1), of 5 "[]"] short c(2)
    obtain s where "s \<in> set ?res" "decade (fst s) = decade n" by auto
    then show ?thesis by (metis comp_apply image_eqI)
  qed
  have "{0, 1, 2, 3, 4} \<subseteq> (decade \<circ> fst) ` set ?res"
    using cov[of 1] cov[of 11] cov[of 21] cov[of 31] cov[of 41] by (simp add: decade_def)
  then have "card {0, 1, 2, 3, 4 :: int} \<le> card ((decade \<circ> fst) ` set ?res)"
    by (intro card_mono) auto
  also have "\<dots> \<le> card (set ?res)" by (rule card_image_le) simp
  also have "\<dots> \<le> length ?res" by (rule card_length)
  finally show False using short by simp
qed

lemma atMostTwoPerDecade_mset:
  "mset xs = mset ys \<Longrightarrow> atMostTwoPerDecade xs = atMostTwoPerDecade ys"
proof -
  assume e: "mset xs = mset ys"
  have "length (filter P xs) = length (filter P ys)" for P :: "nat \<Rightarrow> bool"
    by (metis e mset_filter size_mset)
  then show ?thesis by (simp add: atMostTwoPerDecade_def)
qed

lemma selection_properties:
  assumes "map fst scores = [1..<91]"
  shows "length (firstPass 5 (rankScores scores) []) = 5"
    and "distinct (map fst (firstPass 5 (rankScores scores) []))"
    and "set (map fst (firstPass 5 (rankScores scores) [])) \<subseteq> {1..90}"
    and "atMostTwoPerDecade (map fst (firstPass 5 (rankScores scores) []))"
proof -
  have m: "mset (map fst (rankScores scores)) = mset [1..<91]"
    using assms by (simp only: mset_fst_rankScores)
  then have st: "set (map fst (rankScores scores)) = {1..<91}"
    by (metis mset_eq_setD set_upt)
  have "{1, 11, 21, 31, 41} \<subseteq> {1..<91::nat}" by simp
  with st have "{1, 11, 21, 31, 41} \<subseteq> fst ` set (rankScores scores)" by simp
  then show "length (firstPass 5 (rankScores scores) []) = 5" by (rule firstPass_five)
  have "distinct (map fst (rankScores scores))"
    using m by (metis distinct_upt mset_eq_imp_distinct_iff)
  then show "distinct (map fst (firstPass 5 (rankScores scores) []))"
    by (intro firstPass_distinct) simp
  obtain zs where "firstPass 5 (rankScores scores) [] = [] @ zs" "set zs \<subseteq> set (rankScores scores)"
    using firstPass_prefix by blast
  then have "fst ` set (firstPass 5 (rankScores scores) []) \<subseteq> fst ` set (rankScores scores)"
    by auto
  with st show "set (map fst (firstPass 5 (rankScores scores) [])) \<subseteq> {1..90}" by auto
  show "atMostTwoPerDecade (map fst (firstPass 5 (rankScores scores) []))"
    by (rule firstPass_balanced) (simp add: atMostTwoPerDecade_def)
qed

text \<open>
  C4.  On a score map whose keys are exactly 1..90, the selection of the hybrid path
  (\<^verbatim>\<open>selectTopNumbers\<close> with count 5) and the inline selection of the main and machine
  paths return the same thing: exactly 5 distinct numbers, each in 1..90, with at most 2 of
  them in any decade \<open>\<lfloor>(n - 1) / 10\<rfloor>\<close>.  With 90 candidates in 9 decades the first,
  decade-balanced pass always finds its five numbers, so the bound of 2 per decade holds
  whatever the scores are, also when fewer than 5 decades have a non-zero score.
\<close>

theorem selector_five_distinct_balanced:
  assumes "map fst scores = [1..<91]"
  shows "length (numbersOf (selectTopNumbers scores 5)) = 5
       \<and> distinct (numbersOf (selectTopNumbers scores 5))
       \<and> (\<forall>n \<in> set (numbersOf (selectTopNumbers scores 5)). 1 \<le> n \<and> n \<le> 90)
       \<and> (\<forall>d. length (filter (\<lambda>n. decade n = d) (numbersOf (selectTopNumbers scores 5))) \<le> 2)
       \<and> numbersOf (selectMain scores) = numbersOf (selectTopNumbers scores 5)"
proof -
  let ?sel = "firstPass 5 (rankScores scores) []"
  note p = selection_properties[OF assms]
  have s: "selectTopNumbers scores 5 = ?sel" "selectMain scores = ?sel"
    using p(1) by (simp_all add: selectTopNumbers_def selectMain_def secondPass_full)
  have m: "mset (numbersOf ?sel) = mset (map fst ?sel)"
    by (simp add: numbersOf_def mset_sortBy)
  have "length (numbersOf ?sel) = 5" using p(1) by (metis m size_mset length_map)
  moreover have "distinct (numbersOf ?sel)" using p(2) m by (metis mset_eq_imp_distinct_iff)
  moreover have "set (numbersOf ?sel) \<subseteq> {1..90}" using p(3) m by (metis mset_eq_setD)
  moreover have "atMostTwoPerDecade (numbersOf ?sel)"
    using p(4) atMostTwoPerDecade_mset[OF m] by simp
  ultimately show ?thesis by (auto simp: s atMostTwoPerDecade_def)
qed


theorem selector_five_distinct_balanced_witness:
  "map fst exampleScores = [1..<91]
   \<and> length (numbersOf (selectTopNumbers exampleScores 5)) = 5
   \<and> distinct (numbersOf (selectTopNumbers exampleScores 5))
   \<and> set (numbersOf (selectTopNumbers exampleScores 5)) \<subseteq> {1..90}
   \<and> (\<forall>d. length (filter (\<lambda>n. decade n = d) (numbersOf (selectTopNumbers exampleScores 5))) \<le> 2)
   \<and> numbersOf (selectMain exampleScores) = numbersOf (selectTopNumbers exampleScores 5)"
proof -
  have h: "map fst exampleScores = [1..<91]"
    by (simp add: exampleScores_def comp_def)
  show ?thesis
    using h selector_five_distinct_balanced [OF h] by auto
qed

section \<open>The correlation booster\<close>

lemma map_of_insort_key_fresh:
  "map_of obj k = None \<Longrightarrow> map_of (insort_key fst (k, x) obj) = (map_of obj)(k \<mapsto> x)"
  by (induction obj) (auto split: if_splits)

lemma map_of_replace:
  "map_of (map (\<lambda>(j, u). if j = k then (j, g u) else (j, u)) obj) =
     (\<lambda>j. if j = k then map_option g (map_of obj k) else map_of obj j)"
  by (induction obj) auto

lemma map_of_assign: "map_of (assign k f obj) = (map_of obj)(k \<mapsto> f (map_of obj k))"
proof (cases "map_of obj k")
  case None
  then show ?thesis by (simp add: assign_def map_of_insort_key_fresh)
next
  case (Some v)
  have "map_of (map (\<lambda>(j, u). if j = k then (j, f (Some u)) else (j, u)) obj) =
     (\<lambda>j. if j = k then map_option (\<lambda>u. f (Some u)) (map_of obj k) else map_of obj j)"
    by (rule map_of_replace)
  with Some show ?thesis by (auto simp: assign_def)
qed

lemma keys_replace: "map fst (map (\<lambda>(j, u). if j = k then (j, g u) else (j, u)) obj) = map fst obj"
  by (induction obj) auto

lemma keys_insort_key: "fst ` set (insort_key fst (k, x) obj) = insert k (fst ` set obj)"
  by (simp add: set_insort_key)

lemma distinct_insort_key_fresh:
  "k \<notin> fst ` set obj \<Longrightarrow> distinct (map fst obj) \<Longrightarrow>
   distinct (map fst (insort_key fst (k, x) obj))"
proof (induction obj)
  case Nil
  then show ?case by simp
next
  case (Cons a obj)
  then show ?case using keys_insort_key[of k x obj] by auto
qed

lemma distinct_assign: "distinct (map fst obj) \<Longrightarrow> distinct (map fst (assign k f obj))"
proof (cases "map_of obj k")
  case None
  assume d: "distinct (map fst obj)"
  from None have "k \<notin> fst ` set obj" by (simp add: map_of_eq_None_iff)
  with d show ?thesis using None
    by (simp add: assign_def distinct_insort_key_fresh)
next
  case (Some v)
  assume "distinct (map fst obj)"
  with Some show ?thesis by (simp add: assign_def keys_replace del: map_map)
qed

lemma distinct_countWinning:
  "distinct (map fst row) \<Longrightarrow> distinct (map fst (countWinning ws row))"
  unfolding countWinning_def by (induction ws arbitrary: row) (auto simp: distinct_assign)

lemma rowsDistinct_machine:
  "rowsDistinct corr \<Longrightarrow>
   rowsDistinct (foldl (\<lambda>corr machineNum.
                 assign machineNum
                   (\<lambda>old. countWinning ws (case old of None \<Rightarrow> [] | Some row \<Rightarrow> row)) corr) corr ms)"
proof (induction ms arbitrary: corr)
  case Nil
  then show ?case by simp
next
  case (Cons m ms)
  have "rowsDistinct (assign m (\<lambda>old. countWinning ws (case old of None \<Rightarrow> [] | Some row \<Rightarrow> row)) corr)"
    using Cons.prems
    by (auto simp: rowsDistinct_def map_of_assign distinct_countWinning split: option.splits if_splits)
  from Cons.IH[OF this] show ?case by simp
qed

lemma rowsDistinct_correlateDraw: "rowsDistinct corr \<Longrightarrow> rowsDistinct (correlateDraw corr d)"
  by (simp add: correlateDraw_def Let_def rowsDistinct_machine)

lemma rowsDistinct_analyze: "rowsDistinct (analyzeWinningMachineCorrelation draws)"
proof -
  have "rowsDistinct corr \<Longrightarrow> rowsDistinct (foldl correlateDraw corr draws)" for corr
    by (induction draws arbitrary: corr) (auto simp: rowsDistinct_correlateDraw)
  moreover have "rowsDistinct []" by (simp add: rowsDistinct_def)
  ultimately show ?thesis by (simp add: analyzeWinningMachineCorrelation_def)
qed

lemma distinct_top:
  assumes "rowsDistinct corr"
  shows "distinct (map fst (getTopCorrelatedWinning corr m n))"
proof -
  let ?row = "case map_of corr m of None \<Rightarrow> [] | Some row \<Rightarrow> row"
  have "distinct (map fst ?row)"
    using assms by (auto simp: rowsDistinct_def split: option.splits)
  then have "distinct (map fst (sortBy (\<lambda>a b. snd b > snd a) ?row))"
    by (metis mset_map_sortBy mset_eq_imp_distinct_iff)
  then have "distinct (take n (map fst (sortBy (\<lambda>a b. snd b > snd a) ?row)))"
    by (rule distinct_take)
  then show ?thesis by (simp add: getTopCorrelatedWinning_def take_map)
qed

lemma boostNumber_other:
  "w \<noteq> winNum \<Longrightarrow> map_of (fst (boostNumber bf st winNum)) w = map_of (fst st) w"
  by (cases st) (simp add: boostNumber_def map_of_assign)

lemma boostNumber_same:
  "map_of (fst st) w = Some (Num s) \<Longrightarrow>
   map_of (fst (boostNumber (Num f) st w)) w = Some (Num (s * f))"
  by (cases st) (simp add: boostNumber_def map_of_assign orNaN_def)

lemma boost_list:
  "distinct ws \<Longrightarrow> map_of (fst st) w = Some (Num s) \<Longrightarrow>
   map_of (fst (foldl (boostNumber (Num f)) st ws)) w =
     Some (Num (if w \<in> set ws then s * f else s))"
proof (induction ws arbitrary: st s)
  case Nil
  then show ?case by simp
next
  case (Cons a ws)
  show ?case
  proof (cases "w = a")
    case True
    with Cons.prems have "w \<notin> set ws" by simp
    moreover have "map_of (fst (boostNumber (Num f) st a)) w = Some (Num (s * f))"
      using True Cons.prems(2) by (simp add: boostNumber_same)
    ultimately show ?thesis using Cons.IH[of "boostNumber (Num f) st a" "s * f"] Cons.prems(1) True
      by simp
  next
    case False
    then have "map_of (fst (boostNumber (Num f) st a)) w = Some (Num s)"
      using Cons.prems(2) by (simp add: boostNumber_other)
    with Cons.IH[of "boostNumber (Num f) st a" s] Cons.prems(1) False show ?thesis by simp
  qed
qed

lemma boost_all:
  "rowsDistinct corr \<Longrightarrow> map_of (fst st) w = Some (Num s) \<Longrightarrow>
   map_of (fst (foldl (boostFor corr (Num f)) st mp)) w =
     Some (Num (s * f ^ recommenders corr mp w))"
proof (induction mp arbitrary: st s)
  case Nil
  then show ?case by (simp add: recommenders_def)
next
  case (Cons m mp)
  let ?top = "map fst (getTopCorrelatedWinning corr m 10)"
  let ?s' = "if w \<in> set ?top then s * f else s"
  have "map_of (fst (boostFor corr (Num f) st m)) w = Some (Num ?s')"
    unfolding boostFor_def using Cons.prems by (intro boost_list distinct_top)
  from Cons.IH[OF Cons.prems(1) this]
  show ?case by (simp add: recommenders_def)
qed

text \<open>
  C2 (as amended).  A winning number \<open>w\<close> with a finite score \<open>s\<close> in the main score map
  ends with the score \<open>s * boostFactor ^ k\<close>, where \<open>k\<close> is the number of predicted machine
  numbers (entries of \<open>machinePrediction\<close>) whose top-10 list contains \<open>w\<close>: the factor is
  applied once for each recommending machine number, not once per unique \<open>w\<close>.  (A score
  of zero is falsy and is skipped, which leaves the same value.)
\<close>

theorem hybrid_boost_once_per_recommender:
  assumes "map_of mainScores w = Some (Num s)"
  shows "map_of (boostedScores (generateHybridPrediction draws mainScores machinePrediction (Num f))) w
       = Some (Num (s * f ^ recommenders (analyzeWinningMachineCorrelation draws) machinePrediction w))"
proof -
  let ?corr = "analyzeWinningMachineCorrelation draws"
  have "map_of (fst (foldl (boostFor ?corr (Num f)) (mainScores, []) machinePrediction)) w
      = Some (Num (s * f ^ recommenders ?corr machinePrediction w))"
    using assms by (intro boost_all rowsDistinct_analyze) simp
  then show ?thesis
    by (simp add: generateHybridPrediction_def Let_def case_prod_beta)
qed

theorem hybrid_boost_once_per_recommender_witness:
  "map_of uniformScores 17 = Some (Num 1)
   \<and> recommenders (analyzeWinningMachineCorrelation twoDraws) [10, 20, 30, 40, 50] 17 = 2
   \<and> map_of (boostedScores
         (generateHybridPrediction twoDraws uniformScores [10, 20, 30, 40, 50] (Num (13 / 10)))) 17
       = Some (Num (1 * (13 / 10) ^ 2))"
proof -
  have h: "map_of uniformScores 17 = Some (Num 1)"
    by code_simp
  have r: "recommenders (analyzeWinningMachineCorrelation twoDraws) [10, 20, 30, 40, 50] 17 = 2"
    by code_simp
  show ?thesis
    using h r hybrid_boost_once_per_recommender [OF h, of twoDraws "[10, 20, 30, 40, 50]" "13 / 10"]
    by simp
qed

text \<open>
  The claim as stated fails.  Two draws: machine numbers 10, 21, 31, 41, 51 with winning
  numbers 17, 2, 3, 4, 5, and machine numbers 20, 22, 32, 42, 52 with winning numbers
  17, 6, 7, 8, 9.  With the machine prediction 10, 20, 30, 40, 50 the number 17 is in the
  top 10 of both 10 and 20, and its score 1 becomes 1.69, not 1.30.
\<close>

theorem hybrid_boost_exactly_once_counterexample:
  "map_of uniformScores 17 = Some (Num 1)
   \<and> 17 \<in> fst ` set (getTopCorrelatedWinning (analyzeWinningMachineCorrelation twoDraws) 10 10)
   \<and> 17 \<in> fst ` set (getTopCorrelatedWinning (analyzeWinningMachineCorrelation twoDraws) 20 10)
   \<and> map_of (boostedScores
         (generateHybridPrediction twoDraws uniformScores [10, 20, 30, 40, 50] (Num (13 / 10)))) 17
       = Some (Num (169 / 100))
   \<and> map_of (boostedScores
         (generateHybridPrediction twoDraws uniformScores [10, 20, 30, 40, 50] (Num (13 / 10)))) 17
       \<noteq> Some (jmul (Num 1) (Num (13 / 10)))"
  by code_simp

section \<open>The draw store adapter\<close>

text \<open>
  C8 (as amended).  When the backing store answers the direct query for the requested
  draws with an error, \<^verbatim>\<open>getDrawsData\<close> either serves the draws of its cache that match
  the requested type, when there is at least one, or throws
  \<^verbatim>\<open>Error('Failed to fetch draws data')\<close> to its caller.  It never returns the empty
  sequence in that situation.  When the refresh query fails as well, the cache it serves
  from is the (possibly stale) one it had.
\<close>

theorem getDrawsData_store_error:
  assumes "reply_error (selectChronological st (wantsType drawTypeId)) \<noteq> None"
  shows "getDrawsData now st cache drawTypeId =
           (case cache_draws (refreshCache now st cache) of
              None \<Rightarrow> Inl (Error ''Failed to fetch draws data'')
            | Some cached \<Rightarrow>
                (let result = (case wantsType drawTypeId of
                                 Some i \<Rightarrow> filter (\<lambda>d. draw_type_id d = Some i) cached
                               | None \<Rightarrow> cached)
                 in if result \<noteq> [] then Inr result
                    else Inl (Error ''Failed to fetch draws data'')),
            refreshCache now st cache)
         \<and> fst (getDrawsData now st cache drawTypeId) \<noteq> Inr []
         \<and> (reply_error (selectNewest st) \<noteq> None \<longrightarrow> refreshCache now st cache = cache)"
proof -
  have r: "refreshCache now st cache = cache" if "reply_error (selectNewest st) \<noteq> None"
    using that by (auto simp: refreshCache_def split: option.splits)
  have d: "directFetch st drawTypeId = Inl (Error ''Failed to fetch draws data'')"
    using assms by (simp add: directFetch_def Let_def)
  show ?thesis
    using r by (auto simp: getDrawsData_def d Let_def split: option.splits)
qed

theorem getDrawsData_store_error_witness:
  "reply_error (selectChronological failingStore (wantsType (TypeId 1))) \<noteq> None
   \<and> reply_error (selectChronological failingStore (wantsType (TypeId 2))) \<noteq> None
   \<and> reply_error (selectNewest failingStore) \<noteq> None
   \<and> getDrawsData 5000 failingStore (cacheOf twoDraws) (TypeId 1)
       = (Inr (map withNumbersDrawn twoDraws), cacheOf twoDraws)
   \<and> getDrawsData 5000 failingStore (cacheOf twoDraws) (TypeId 2)
       = (Inl (Error ''Failed to fetch draws data''), cacheOf twoDraws)"
proof -
  have h1: "reply_error (selectChronological failingStore (wantsType (TypeId 1))) \<noteq> None"
    by (simp add: failingStore_def)
  have h2: "reply_error (selectChronological failingStore (wantsType (TypeId 2))) \<noteq> None"
    by (simp add: failingStore_def)
  have h3: "reply_error (selectNewest failingStore) \<noteq> None"
    by (simp add: failingStore_def)
  show ?thesis
    using h1 h2 h3 getDrawsData_store_error [OF h1, of 5000 "cacheOf twoDraws"]
      getDrawsData_store_error [OF h2, of 5000 "cacheOf twoDraws"]
    by (simp add: cacheOf_def twoDraws_def wantsType_def withNumbersDrawn_def exampleDraw_def
        draw.extend_def draw.defs col_def)
qed

text \<open>
  The claim as stated fails: with nothing cached and the store down, the call throws
  instead of returning an empty sequence.
\<close>

theorem getDrawsData_throws_counterexample:
  "fst (getDrawsData 0 failingStore emptyCache NoType) = Inl (Error ''Failed to fetch draws data'')
   \<and> fst (getDrawsData 0 failingStore emptyCache NoType) \<noteq> Inr []"
  by (simp add: getDrawsData_def refreshCache_def directFetch_def failingStore_def emptyCache_def
      wantsType_def Let_def)

section \<open>The evaluation request\<close>




section \<open>The verification loop\<close>

lemma find_newestFirst:
  "newestFirst ds \<Longrightarrow> find P ds = Some d \<Longrightarrow>
   d \<in> set ds \<and> P d \<and> (\<forall>d' \<in> set ds. P d' \<longrightarrow> draw_date d' \<le> draw_date d)"
proof (induction ds)
  case Nil
  then show ?case by simp
next
  case (Cons a ds)
  show ?case
  proof (cases "P a")
    case True
    with Cons.prems show ?thesis by (auto simp: newestFirst_def)
  next
    case False
    with Cons.prems have "newestFirst ds" "find P ds = Some d" by (auto simp: newestFirst_def)
    from Cons.IH[OF this] False show ?thesis by auto
  qed
qed

lemma find_None_none: "find P ds = None \<Longrightarrow> \<forall>d \<in> set ds. \<not> P d"
  by (simp add: find_None_iff)

lemma verifyHistory_map:
  "recentDraws \<noteq> [] \<Longrightarrow>
   verifyHistory now (Some recentDraws) history =
     map (\<lambda>p. if isUnverified now p then verifyEntry recentDraws p else p) history"
proof -
  have "map (\<lambda>p. if isUnverified now p then verifyEntry recentDraws p else p) history = history"
    if "filter (isUnverified now) history = []"
    using that by (induction history) (auto split: if_splits)
  then show ?thesis if "recentDraws \<noteq> []"
    using that by (auto simp: verifyHistory_def)
qed

text \<open>
  C3 (as amended).  The loop rewrites exactly the entries without a result that are newer
  than seven days.  To such an entry it attributes the first draw of the newest-first list
  of recent draws whose draw type matches and whose date is on or after the day of the
  prediction: that is the latest such draw in date order, not the earliest.  A result is
  recorded exactly when that draw's timestamp minus the prediction's timestamp lies in
  [-24h, +72h); otherwise, and when no draw matches, the entry stays as it is.
\<close>

theorem verification_attributes_latest_draw:
  assumes "newestFirst recentDraws" and "pred_result pred = None"
  shows "(recentDraws \<noteq> [] \<longrightarrow>
            verifyHistory now (Some recentDraws) history =
              map (\<lambda>p. if isUnverified now p then verifyEntry recentDraws p else p) history)
       \<and> (case find (isTarget pred) recentDraws of
           None \<Rightarrow> (\<forall>d \<in> set recentDraws. \<not> isTarget pred d) \<and> verifyEntry recentDraws pred = pred
         | Some targetDraw \<Rightarrow>
             targetDraw \<in> set recentDraws \<and> isTarget pred targetDraw
             \<and> (\<forall>d \<in> set recentDraws. isTarget pred d \<longrightarrow> draw_date d \<le> draw_date targetDraw)
             \<and> verifyEntry recentDraws pred =
                 (if - 24 \<le> diffHours targetDraw pred \<and> diffHours targetDraw pred < 72
                  then attribute targetDraw pred else pred)
             \<and> pred_result (attribute targetDraw pred)
                 = Some (outcomeOf (Some (draw_date targetDraw)) (pred_predictedNumbers pred)
                           (columns targetDraw Winning)))"
proof (cases "find (isTarget pred) recentDraws")
  case None
  with assms(2) find_None_none[OF None] show ?thesis by (simp add: verifyEntry_def verifyHistory_map)
next
  case (Some targetDraw)
  have "pred_result (attribute targetDraw pred)
      = Some (outcomeOf (Some (draw_date targetDraw)) (pred_predictedNumbers pred)
                (columns targetDraw Winning))"
    by (simp add: attribute_def Let_def split: option.splits)
  with find_newestFirst[OF assms(1) Some] Some assms(2) show ?thesis
    by (simp add: verifyEntry_def verifyHistory_map)
qed


text \<open>
  The claim as stated fails.  A prediction for draw type 1 is made on day 100 at noon; the
  recent draws of type 1 are those of day 105 and day 101.  The earliest draw on or after
  the prediction is the one of day 101, 12 hours after the prediction and so inside the
  window; the loop looks at the draw of day 105 only, 108 hours after the prediction, and
  records nothing.
\<close>

theorem verification_earliest_counterexample:
  "isUnverified (106 * msPerDay) examplePrediction
   \<and> newestFirst [drawDay105, drawDay101]
   \<and> isTarget examplePrediction drawDay101 \<and> isTarget examplePrediction drawDay105
   \<and> draw_date drawDay101 < draw_date drawDay105
   \<and> diffHours drawDay101 examplePrediction = 12
   \<and> find (isTarget examplePrediction) [drawDay105, drawDay101] = Some drawDay105
   \<and> diffHours drawDay105 examplePrediction = 108
   \<and> verifyHistory (106 * msPerDay) (Some [drawDay105, drawDay101]) [examplePrediction]
       = [examplePrediction]
   \<and> pred_result examplePrediction = None"
  by (simp add: isUnverified_def newestFirst_def isTarget_def diffHours_def verifyHistory_def
      verifyEntry_def examplePrediction_def drawDay105_def drawDay101_def exampleDraw_def
      dateMs_def isoDay_def msPerDay_def col_def)

theorem verification_attributes_latest_draw_witness:
  "newestFirst [drawDay101] \<and> pred_result examplePrediction = None
   \<and> find (isTarget examplePrediction) [drawDay101] = Some drawDay101
   \<and> verifyEntry [drawDay101] examplePrediction = attribute drawDay101 examplePrediction
   \<and> out_matches (the (pred_result (verifyEntry [drawDay101] examplePrediction))) = [7, 42]
   \<and> out_nearMisses (the (pred_result (verifyEntry [drawDay101] examplePrediction))) = [15]"
proof -
  have h1: "newestFirst [drawDay101]" by (simp add: newestFirst_def)
  have h2: "pred_result examplePrediction = None" by (simp add: examplePrediction_def)
  have f: "find (isTarget examplePrediction) [drawDay101] = Some drawDay101"
    by (simp add: isTarget_def examplePrediction_def drawDay101_def exampleDraw_def
        dateMs_def isoDay_def msPerDay_def)
  have d: "diffHours drawDay101 examplePrediction = 12"
    by (simp add: diffHours_def examplePrediction_def drawDay101_def exampleDraw_def
        dateMs_def msPerDay_def)
  have c: "columns drawDay101 Winning = [Some 7, Some 16, Some 30, Some 42, Some 80]"
    by (simp add: columns_def drawDay101_def exampleDraw_def col_def)
  have n: "pred_predictedNumbers examplePrediction = [7, 15, 23, 42, 71]"
    by (simp add: examplePrediction_def)
  show ?thesis
    using h1 h2 f verification_attributes_latest_draw [OF h1 h2]
    by (simp add: d c n outcomeOf_def exactMatches_def nearMissesOf_def)
qed

section \<open>Pairwise correlation and the correlation strategy\<close>

lemma map_of_assignNew: "map_of (assignNew k f obj) = (map_of obj)(k \<mapsto> f (map_of obj k))"
proof (cases "map_of obj k")
  case None
  then show ?thesis
    by (auto simp: assignNew_def map_add_def fun_eq_iff split: option.splits)
next
  case (Some v)
  have "map_of (map (\<lambda>(j, u). if j = k then (j, f (Some u)) else (j, u)) obj) =
     (\<lambda>j. if j = k then map_option (\<lambda>u. f (Some u)) (map_of obj k) else map_of obj j)"
    by (rule map_of_replace)
  with Some show ?thesis by (auto simp: assignNew_def)
qed

lemma distinct_assignNew: "distinct (map fst obj) \<Longrightarrow> distinct (map fst (assignNew k f obj))"
proof (cases "map_of obj k")
  case None
  assume d: "distinct (map fst obj)"
  from None have "k \<notin> fst ` set obj" by (simp add: map_of_eq_None_iff)
  with d None show ?thesis by (simp add: assignNew_def)
next
  case (Some v)
  assume "distinct (map fst obj)"
  with Some show ?thesis by (simp add: assignNew_def keys_replace del: map_map)
qed

lemma counts_assignNew: "counts obj xs \<Longrightarrow> counts (assignNew k increment obj) (xs @ [k])"
  by (auto simp: counts_def map_of_assignNew increment_def)

lemma counts_assign: "counts obj xs \<Longrightarrow> counts (assign k increment obj) (xs @ [k])"
  by (auto simp: counts_def map_of_assign increment_def)

lemma counts_foldl_assignNew:
  "counts obj xs \<Longrightarrow> counts (foldl (\<lambda>pf key. assignNew key increment pf) obj ks) (xs @ ks)"
proof (induction ks arbitrary: obj xs)
  case Nil
  then show ?case by simp
next
  case (Cons k ks)
  from Cons.IH[OF counts_assignNew[OF Cons.prems, of k]] show ?case by simp
qed

lemma counts_foldl_assign:
  "counts obj xs \<Longrightarrow> counts (foldl (\<lambda>fr n. assign n increment fr) obj ks) (xs @ ks)"
proof (induction ks arbitrary: obj xs)
  case Nil
  then show ?case by simp
next
  case (Cons k ks)
  from Cons.IH[OF counts_assign[OF Cons.prems, of k]] show ?case by simp
qed

lemma distinct_foldl_assignNew:
  "distinct (map fst obj) \<Longrightarrow> distinct (map fst (foldl (\<lambda>pf key. assignNew key f pf) obj ks))"
  by (induction ks arbitrary: obj) (auto simp: distinct_assignNew)

lemma countDraw_invariant:
  assumes "counts (fst acc) (concat (map ascending ds))"
      and "counts (snd acc) (concat (map (\<lambda>d. pairsOf (ascending d)) ds))"
      and "distinct (map fst (snd acc))"
  shows "counts (fst (countDraw acc d)) (concat (map ascending (ds @ [d])))"
    and "counts (snd (countDraw acc d)) (concat (map (\<lambda>d. pairsOf (ascending d)) (ds @ [d])))"
    and "distinct (map fst (snd (countDraw acc d)))"
  using assms
  by (cases acc; simp add: countDraw_def Let_def counts_foldl_assign counts_foldl_assignNew
      distinct_foldl_assignNew)+

lemma countDraws_invariant:
  assumes "counts (fst acc) (concat (map ascending ds))"
      and "counts (snd acc) (concat (map (\<lambda>d. pairsOf (ascending d)) ds))"
      and "distinct (map fst (snd acc))"
  shows "counts (fst (foldl countDraw acc es)) (concat (map ascending (ds @ es)))
       \<and> counts (snd (foldl countDraw acc es)) (concat (map (\<lambda>d. pairsOf (ascending d)) (ds @ es)))
       \<and> distinct (map fst (snd (foldl countDraw acc es)))"
  using assms
proof (induction es arbitrary: acc ds)
  case Nil
  then show ?case by simp
next
  case (Cons e es)
  from Cons.IH[of "countDraw acc e" "ds @ [e]"] countDraw_invariant[OF Cons.prems, of e]
  show ?case by simp
qed

lemma countDraws:
  "counts (fst (foldl countDraw ([], []) draws)) (concat (map ascending draws))"
  "counts (snd (foldl countDraw ([], []) draws)) (concat (map (\<lambda>d. pairsOf (ascending d)) draws))"
  "distinct (map fst (snd (foldl countDraw ([], []) draws)))"
  using countDraws_invariant[of "([], [])" "[]" draws] by (simp_all add: counts_def)

lemma keepLift_fold:
  "distinct (map fst ps) \<Longrightarrow> fst ` set lifts \<inter> fst ` set ps = {} \<Longrightarrow>
   foldl (keepLift tot freq) lifts ps = lifts @ map (liftEntry tot freq) (filter (kept tot freq) ps)"
proof (induction ps arbitrary: lifts)
  case Nil
  then show ?case by simp
next
  case (Cons p ps)
  obtain pair cnt where p: "p = (pair, cnt)" by (cases p)
  from Cons.prems have fresh: "map_of lifts pair = None"
    by (auto simp: p map_of_eq_None_iff)
  show ?case
  proof (cases "kept tot freq p")
    case True
    then have step: "keepLift tot freq lifts p = lifts @ [liftEntry tot freq p]"
      using fresh by (simp add: keepLift_def kept_def p Let_def assignNew_def liftEntry_def)
    have "fst ` set (lifts @ [liftEntry tot freq p]) \<inter> fst ` set ps = {}"
      using Cons.prems by (auto simp: liftEntry_def p)
    with Cons.IH[of "lifts @ [liftEntry tot freq p]"] Cons.prems(1) step True
    show ?thesis by simp
  next
    case False
    then have step: "keepLift tot freq lifts p = lifts"
      by (auto simp: keepLift_def kept_def p Let_def)
    have "fst ` set lifts \<inter> fst ` set ps = {}" using Cons.prems by auto
    with Cons.IH[of lifts] Cons.prems(1) step False show ?thesis by simp
  qed
qed

lemma calculateLift_filter:
  "10 \<le> length draws \<Longrightarrow>
   calculateLift draws =
     map (liftEntry (length draws) (fst (foldl countDraw ([], []) draws)))
       (filter (kept (length draws) (fst (foldl countDraw ([], []) draws)))
          (snd (foldl countDraw ([], []) draws)))"
  using keepLift_fold[OF countDraws(3), of "[]" draws]
  by (simp add: calculateLift_def Let_def case_prod_beta)

lemma pairsOf_members: "(a, b) \<in> set (pairsOf xs) \<Longrightarrow> a \<in> set xs \<and> b \<in> set xs"
  by (induction xs) auto

lemma cooccurrences_occurrences:
  assumes "0 < cooccurrences draws pair"
  shows "0 < occurrences draws (fst pair) \<and> 0 < occurrences draws (snd pair)"
proof -
  from assms have "pair \<in> set (concat (map (\<lambda>d. pairsOf (ascending d)) draws))"
    by (metis cooccurrences_def count_list_0_iff less_numeral_extra(3))
  then obtain d where d: "d \<in> set draws" "(fst pair, snd pair) \<in> set (pairsOf (ascending d))"
    by auto
  from pairsOf_members[OF d(2)] d(1)
  have "fst pair \<in> set (concat (map ascending draws))" "snd pair \<in> set (concat (map ascending draws))"
    by auto
  then have "count_list (concat (map ascending draws)) (fst pair) \<noteq> 0"
    "count_list (concat (map ascending draws)) (snd pair) \<noteq> 0"
    by (metis count_list_0_iff)+
  then show ?thesis
    by (simp add: occurrences_def)
qed

lemma liftOf_ratio:
  assumes "0 < cooccurrences draws pair"
  shows "liftOf (length draws) (fst (foldl countDraw ([], []) draws)) pair (cooccurrences draws pair)
       = Num (liftRatio draws pair)"
proof -
  let ?freq = "fst (foldl countDraw ([], []) draws)"
  from cooccurrences_occurrences[OF assms]
  have pos: "0 < occurrences draws (fst pair)" "0 < occurrences draws (snd pair)" by simp_all
  have f: "map_of ?freq n = (if occurrences draws n = 0 then None else Some (occurrences draws n))" for n
    using countDraws(1)[of draws] by (simp add: counts_def occurrences_def)
  show ?thesis
    using pos by (simp add: liftOf_def f numOf_def liftRatio_def)
qed

lemma pairFreq_entries:
  "(pair, c) \<in> set (snd (foldl countDraw ([], []) draws))
     \<longleftrightarrow> c = cooccurrences draws pair \<and> 0 < c"
proof -
  let ?pf = "snd (foldl countDraw ([], []) draws)"
  have "(pair, c) \<in> set ?pf \<longleftrightarrow> map_of ?pf pair = Some c"
    using countDraws(3)[of draws] by (metis map_of_eq_Some_iff)
  also have "\<dots> \<longleftrightarrow> c = cooccurrences draws pair \<and> 0 < c"
  proof -
    have "map_of ?pf pair =
        (if cooccurrences draws pair = 0 then None else Some (cooccurrences draws pair))"
      using countDraws(2)[of draws] unfolding counts_def cooccurrences_def by blast
    then show ?thesis by auto
  qed
  finally show ?thesis .
qed

lemma calculateLift_member:
  "(pair, e) \<in> set (calculateLift draws) \<longleftrightarrow>
     10 \<le> length draws \<and> 3 \<le> cooccurrences draws pair \<and> liftRatio draws pair > 12 / 10
     \<and> e = \<lparr> le_lift = Num (roundTo 3 (liftRatio draws pair)),
                le_count = cooccurrences draws pair, le_a = fst pair, le_b = snd pair \<rparr>"
proof (cases "10 \<le> length draws")
  case False
  then show ?thesis by (simp add: calculateLift_def)
next
  case True
  let ?freq = "fst (foldl countDraw ([], []) draws)"
  let ?pf = "snd (foldl countDraw ([], []) draws)"
  let ?c = "cooccurrences draws pair"
  have "(pair, e) \<in> set (calculateLift draws) \<longleftrightarrow>
        (\<exists>c. (pair, c) \<in> set ?pf \<and> kept (length draws) ?freq (pair, c)
              \<and> e = snd (liftEntry (length draws) ?freq (pair, c)))"
    unfolding calculateLift_filter[OF True] by (force simp: liftEntry_def)
  also have "\<dots> \<longleftrightarrow> 0 < ?c \<and> kept (length draws) ?freq (pair, ?c)
              \<and> e = snd (liftEntry (length draws) ?freq (pair, ?c))"
    by (auto simp: pairFreq_entries)
  also have "\<dots> \<longleftrightarrow> 3 \<le> ?c \<and> liftRatio draws pair > 12 / 10
     \<and> e = \<lparr> le_lift = Num (roundTo 3 (liftRatio draws pair)),
                le_count = ?c, le_a = fst pair, le_b = snd pair \<rparr>"
  proof (cases "0 < ?c")
    case False
    then show ?thesis by simp
  next
    case pos: True
    show ?thesis
      using pos by (auto simp: kept_def liftEntry_def liftOf_ratio[OF pos])
  qed
  finally show ?thesis using True by simp
qed

lemma addMembers_subset: "set (addMembers cnt nums sel) \<subseteq> set sel \<union> set nums"
proof (induction nums arbitrary: sel)
  case Nil
  then show ?case by simp
next
  case (Cons a nums)
  show ?case
    using Cons.IH[of "sel @ [a]"] Cons.IH[of sel] by (auto simp: Let_def)
qed

lemma walkPairs_subset:
  "set (walkPairs cnt pairs sel) \<subseteq> set sel \<union> \<Union> (set ` tp_numbers ` set pairs)"
proof (induction pairs arbitrary: sel)
  case Nil
  then show ?case by simp
next
  case (Cons p pairs)
  have a: "set (addMembers cnt (tp_numbers p) sel) \<subseteq> set sel \<union> set (tp_numbers p)"
    by (rule addMembers_subset)
  show ?case
    using a Cons.IH[of "addMembers cnt (tp_numbers p) sel"] by (auto simp: Let_def)
qed

lemma set_ascending: "set (ascending xs) = set xs"
  by (metis ascending_def mset_sortBy mset_eq_setD)

text \<open>
  C6 (as amended).  The lift analysis \<^verbatim>\<open>calculateLift\<close> of the statistical analyzer keeps
  exactly the pairs \<open>(a, b)\<close> whose co-occurrence count is at least 3 and whose lift
  \<open>count(a,b) * N / (count(a) * count(b))\<close> is greater than 1.2, and nothing when there are
  fewer than 10 draws.  The correlation strategy does not read that analysis: its numbers
  are members of the top pairs of \<^verbatim>\<open>analyzeCorrelations\<close>, which are the first 20 pairs in
  descending order of their count, with no threshold on count or lift.
\<close>

theorem lift_filter_and_correlation_strategy:
  "((pair, e) \<in> set (calculateLift draws) \<longleftrightarrow>
      10 \<le> length draws \<and> 3 \<le> cooccurrences draws pair \<and> liftRatio draws pair > 12 / 10
      \<and> e = \<lparr> le_lift = Num (roundTo 3 (liftRatio draws pair)),
                 le_count = cooccurrences draws pair, le_a = fst pair, le_b = snd pair \<rparr>)
   \<and> set (strategyCorrelationBased ds cnt ty) \<subseteq> \<Union> (set ` tp_numbers ` set (topPairs ds ty))
   \<and> length (topPairs ds ty) \<le> 20
   \<and> map (\<lambda>p. (tp_numbers p, tp_count p)) (topPairs ds ty)
       = map (\<lambda>(pair, c). ([fst pair, snd pair], c))
           (take 20 (sortBy (\<lambda>a b. snd b > snd a) (pairCounts ds ty)))"
proof -
  have "set (strategyCorrelationBased ds cnt ty) \<subseteq> set (walkPairs cnt (topPairs ds ty) [])"
    by (auto simp: strategyCorrelationBased_def set_ascending dest: in_set_takeD)
  also have "\<dots> \<subseteq> \<Union> (set ` tp_numbers ` set (topPairs ds ty))"
    using walkPairs_subset[of cnt "topPairs ds ty" "[]"] by simp
  finally have b: "set (strategyCorrelationBased ds cnt ty) \<subseteq> \<Union> (set ` tp_numbers ` set (topPairs ds ty))" .
  have c: "length (topPairs ds ty) \<le> 20" by (simp add: topPairs_def)
  have d: "map (\<lambda>p. (tp_numbers p, tp_count p)) (topPairs ds ty)
       = map (\<lambda>(pair, c). ([fst pair, snd pair], c))
           (take 20 (sortBy (\<lambda>a b. snd b > snd a) (pairCounts ds ty)))"
    by (simp add: topPairs_def comp_def case_prod_beta)
  from calculateLift_member b c d show ?thesis by blast
qed


text \<open>
  The claim as stated fails.  With nine draws 1, 2, 3, 4, 5 and one draw 11, 12, 13, 14, 15
  the strategy returns 1, 2, 3, 4, 5, taken from the pairs (1,2), (1,3), (1,4), (1,5), whose
  lift is 10/9, below 1.2.  With a single draw it returns the same numbers from pairs that
  occur once, below the count of 3.
\<close>

theorem correlation_strategy_unfiltered_counterexample:
  "strategyCorrelationBased tenDraws 5 Winning = [1, 2, 3, 4, 5]
   \<and> map (\<lambda>p. (tp_numbers p, tp_count p)) (take 4 (topPairs tenDraws Winning))
       = [([1, 2], 9), ([1, 3], 9), ([1, 4], 9), ([1, 5], 9)]
   \<and> map (liftRatio (map (\<lambda>d. extractNumbers d Winning) tenDraws)) [(1, 2), (1, 3), (1, 4), (1, 5)]
       = [10 / 9, 10 / 9, 10 / 9, 10 / 9]
   \<and> strategyCorrelationBased oneDraw 5 Winning = [1, 2, 3, 4, 5]
   \<and> map tp_count (topPairs oneDraw Winning) = [1, 1, 1, 1, 1, 1, 1, 1, 1, 1]"
  by code_simp

section \<open>The tactical neighbour step of the scorer\<close>

lemma map_of_addTo: "map_of (addTo k x m) = (map_of m)(k \<mapsto> jadd (orNaN (map_of m k)) x)"
  by (simp add: addTo_def map_of_assign)

lemma keys_assign_present: "map_of m k \<noteq> None \<Longrightarrow> map fst (assign k f m) = map fst m"
  by (auto simp: assign_def keys_replace simp del: map_map)

lemma scoreTable_initial: "scoreTable (fst initialTally)"
proof -
  have "map_of (map (\<lambda>i. (i, Num 0)) [1..<91]) k = (if 1 \<le> k \<and> k < 91 then Some (Num 0) else None)" for k
    by (simp add: map_of_map_restrict restrict_map_def)
  then show ?thesis
    by (auto simp: scoreTable_def initialTally_def comp_def)
qed

lemma jadd_NaN [simp]: "jadd NaN x = NaN"
  by (cases x) simp_all

lemma scoreTable_addTo:
  assumes "scoreTable m"
  shows "scoreTable (addTo k x m)"
proof -
  have mo: "map_of (addTo k x m) j = (if j = k then Some (jadd (orNaN (map_of m k)) x) else map_of m j)" for j
    by (simp add: map_of_addTo)
  have a: "map_of m j \<noteq> None" if "1 \<le> j \<and> j \<le> 90" for j
    using assms that unfolding scoreTable_def by blast
  have b: "v = NaN" if "map_of m j = Some v" "j < 1 \<or> 90 < j" for j v
    using assms that unfolding scoreTable_def by blast
  have d: "distinct (map fst (addTo k x m))"
    using assms unfolding scoreTable_def addTo_def by (blast intro: distinct_assign)
  have 1: "map_of (addTo k x m) j \<noteq> None" if "1 \<le> j \<and> j \<le> 90" for j
    using a[OF that] by (simp add: mo)
  have 2: "v = NaN" if h: "map_of (addTo k x m) j = Some v \<and> (j < 1 \<or> 90 < j)" for j v
  proof (cases "j = k")
    case False
    with h b[of j v] show ?thesis by (simp add: mo)
  next
    case True
    have "orNaN (map_of m k) = NaN"
    proof (cases "map_of m k")
      case None
      then show ?thesis by (simp add: orNaN_def)
    next
      case (Some u)
      with b[of k u] h True show ?thesis by (simp add: orNaN_def)
    qed
    with h True show ?thesis by (simp add: mo)
  qed
  show ?thesis
    unfolding scoreTable_def using 1 2 d by blast
qed

lemma scoreTable_present: "scoreTable m \<Longrightarrow> 1 \<le> k \<Longrightarrow> k \<le> 90 \<Longrightarrow> map_of m k \<noteq> None"
  unfolding scoreTable_def by blast

lemma scoreTable_outside: "scoreTable m \<Longrightarrow> map_of m k = Some v \<Longrightarrow> k < 1 \<or> 90 < k \<Longrightarrow> v = NaN"
  unfolding scoreTable_def by blast

lemma scoreTable_distinct: "scoreTable m \<Longrightarrow> distinct (map fst m)"
  unfolding scoreTable_def by blast

lemma scoreTable_contribute: "scoreTable (fst t) \<Longrightarrow> scoreTable (fst (contribute score num xs t))"
proof -
  have "scoreTable (fst t) \<Longrightarrow>
        scoreTable (fst (foldl (\<lambda>(numberScores, strategyVotes) (idx, x).
              (addTo (num x) (score idx x) numberScores,
               if idx < 5 then addVote (num x) strategyVotes else strategyVotes)) t ys))" for ys
  proof (induction ys arbitrary: t)
    case Nil
    then show ?case by simp
  next
    case (Cons y ys)
    obtain a b where t: "t = (a, b)" by (cases t)
    obtain i x where y: "y = (i, x)" by (cases y)
    from Cons.prems have "scoreTable (addTo (num x) (score i x) a)"
      by (simp add: t scoreTable_addTo)
    from Cons.IH[of "(addTo (num x) (score i x) a, if i < 5 then addVote (num x) b else b)"] this
    show ?case by (simp add: t y)
  qed
  then show "scoreTable (fst t) \<Longrightarrow> scoreTable (fst (contribute score num xs t))"
    by (simp add: contribute_def)
qed

lemma scoreTable_strategyScores: "scoreTable (fst (strategyScores cycles strat ws lstm))"
  by (simp add: strategyScores_def Let_def scoreTable_contribute scoreTable_initial
      split: option.splits)

lemma neighborsOf_range: "1 \<le> n \<Longrightarrow> n \<le> 90 \<Longrightarrow> k \<in> set (neighborsOf n) \<Longrightarrow> 1 \<le> k \<and> k \<le> 90"
  by (auto simp: neighborsOf_def split: if_splits)

lemma neighborsOf_set:
  "1 \<le> n \<Longrightarrow> n \<le> 90 \<Longrightarrow> set (neighborsOf n) = {k. (k + 1 = n \<or> k = n + 1) \<and> 1 \<le> k \<and> k \<le> 90}"
  by (auto simp: neighborsOf_def)

lemma map_of_spread:
  "map_of (spread m n) k =
     (if k \<in> set (neighborsOf n)
      then Some (jadd (orNaN (map_of m k)) (jmul (orNaN (map_of m n)) (Num NEIGHBOR_WEIGHT)))
      else map_of m k)"
  by (auto simp: spread_def Let_def neighborsOf_def map_of_addTo)

lemma keys_addTo_present: "map_of m k \<noteq> None \<Longrightarrow> map fst (addTo k x m) = map fst m"
  by (simp add: addTo_def keys_assign_present)

lemma spread_table:
  assumes "scoreTable m" "1 \<le> n" "n \<le> 90"
  shows "scoreTable (spread m n)" and "map fst (spread m n) = map fst m"
    and "k < 1 \<or> 90 < k \<Longrightarrow> map_of (spread m n) k = map_of m k"
proof -
  have gen: "scoreTable m' \<Longrightarrow> \<forall>j \<in> set js. 1 \<le> j \<and> j \<le> 90 \<Longrightarrow>
      scoreTable (foldl (\<lambda>scores neighbor. addTo neighbor b scores) m' js)
      \<and> map fst (foldl (\<lambda>scores neighbor. addTo neighbor b scores) m' js) = map fst m'" for m' js b
  proof (induction js arbitrary: m')
    case Nil
    then show ?case by simp
  next
    case (Cons j js)
    from Cons.prems(2) have "1 \<le> j" "j \<le> 90" by simp_all
    with Cons.prems(1) have p: "map_of m' j \<noteq> None" by (rule scoreTable_present)
    have "scoreTable (addTo j b m')" using Cons.prems(1) by (rule scoreTable_addTo)
    from Cons.IH[OF this] Cons.prems(2) keys_addTo_present[OF p, of b] show ?case by simp
  qed
  have r: "\<forall>j \<in> set (neighborsOf n). 1 \<le> j \<and> j \<le> 90"
    using neighborsOf_range[OF assms(2,3)] by blast
  from gen[OF assms(1) r] show "scoreTable (spread m n)" "map fst (spread m n) = map fst m"
    by (simp_all add: spread_def Let_def)
  show "map_of (spread m n) k = map_of m k" if "k < 1 \<or> 90 < k"
    using that r by (auto simp: map_of_spread)
qed

lemma topCandidates_members:
  assumes "n \<in> set (topCandidates m)"
  shows "\<exists>v. (n, v) \<in> set m \<and> jgt v (Num 0)"
proof -
  from assms obtain v where
    "(n, v) \<in> set (take 15 (sortBy (\<lambda>a b. descending (snd a) (snd b))
                         (filter (\<lambda>(_, score). jgt score (Num 0)) m)))"
    by (auto simp: topCandidates_def)
  then have "(n, v) \<in> set (sortBy (\<lambda>a b. descending (snd a) (snd b))
                         (filter (\<lambda>(_, score). jgt score (Num 0)) m))"
    by (rule in_set_takeD)
  then have "(n, v) \<in> set (filter (\<lambda>(_, score). jgt score (Num 0)) m)"
    by (metis mset_sortBy mset_eq_setD)
  then show ?thesis by auto
qed

lemma topCandidates_range:
  assumes "scoreTable m" "n \<in> set (topCandidates m)"
  shows "1 \<le> n \<and> n \<le> 90"
proof -
  from topCandidates_members[OF assms(2)] obtain v where v: "(n, v) \<in> set m" "jgt v (Num 0)" by blast
  from scoreTable_distinct[OF assms(1)] v(1) have mv: "map_of m n = Some v" by simp
  show ?thesis
  proof (rule ccontr)
    assume "\<not> (1 \<le> n \<and> n \<le> 90)"
    then have "n < 1 \<or> 90 < n" by auto
    with scoreTable_outside[OF assms(1) mv] have "v = NaN" by simp
    with v(2) show False by simp
  qed
qed

lemma spread_all:
  "scoreTable m \<Longrightarrow> \<forall>n \<in> set ns. 1 \<le> n \<and> n \<le> 90 \<Longrightarrow>
   map fst (foldl spread m ns) = map fst m
   \<and> (\<forall>k. k < 1 \<or> 90 < k \<longrightarrow> map_of (foldl spread m ns) k = map_of m k)"
proof (induction ns arbitrary: m)
  case Nil
  then show ?case by simp
next
  case (Cons n ns)
  from Cons.prems have n: "1 \<le> n" "n \<le> 90" by simp_all
  note s = spread_table[OF Cons.prems(1) n]
  from Cons.IH[OF s(1)] Cons.prems(2) s(2) s(3) show ?case by simp
qed

lemma length_topCandidates: "length (topCandidates m) \<le> 15"
  by (simp add: topCandidates_def)

text \<open>
  C9.  The tactical neighbour step is the loop over the (at most 15) numbers with the
  highest positive score, in descending order of score.  For each of them it adds 0.15
  times the score it has at that moment to the entries of its neighbours \<open>n - 1\<close> (when
  \<open>n > 1\<close>) and \<open>n + 1\<close> (when \<open>n < 90\<close>) and changes no other entry.  When the step
  starts on the table built by the strategy contributions, the numbers it loops over lie in
  1..90, so do their neighbours, and the step neither creates a key nor changes the entry
  of a number outside 1..90.
\<close>

theorem neighbors_stay_in_range:
  "tacticalNeighbors m = foldl spread m (topCandidates m)
   \<and> length (topCandidates m) \<le> 15
   \<and> (\<forall>n \<in> set (topCandidates m). \<exists>v. (n, v) \<in> set m \<and> jgt v (Num 0))
   \<and> (\<forall>m' n k. map_of (spread m' n) k =
         (if k \<in> set (neighborsOf n)
          then Some (jadd (orNaN (map_of m' k)) (jmul (orNaN (map_of m' n)) (Num (15 / 100))))
          else map_of m' k))
   \<and> (\<forall>n. 1 \<le> n \<and> n \<le> 90 \<longrightarrow>
         set (neighborsOf n) = {k. (k + 1 = n \<or> k = n + 1) \<and> 1 \<le> k \<and> k \<le> 90})
   \<and> (m = fst (strategyScores cycles strat ws lstm) \<longrightarrow>
         set (topCandidates m) \<subseteq> {1..90}
         \<and> map fst (tacticalNeighbors m) = map fst m
         \<and> (\<forall>k. k < 1 \<or> 90 < k \<longrightarrow> map_of (tacticalNeighbors m) k = map_of m k))"
proof -
  have last: "set (topCandidates m) \<subseteq> {1..90}
         \<and> map fst (tacticalNeighbors m) = map fst m
         \<and> (\<forall>k. k < 1 \<or> 90 < k \<longrightarrow> map_of (tacticalNeighbors m) k = map_of m k)"
    if m: "m = fst (strategyScores cycles strat ws lstm)"
  proof -
    have t: "scoreTable m" unfolding m by (rule scoreTable_strategyScores)
    have r: "\<forall>n \<in> set (topCandidates m). 1 \<le> n \<and> n \<le> 90"
      using topCandidates_range[OF t] by blast
    from spread_all[OF t r] r show ?thesis
      by (auto simp: tacticalNeighbors_def)
  qed
  show ?thesis
    using last topCandidates_members[of _ m] length_topCandidates[of m] neighborsOf_set
    by (simp add: tacticalNeighbors_def map_of_spread NEIGHBOR_WEIGHT_def)
qed

theorem neighbors_stay_in_range_witness:
  "topCandidates (fst (strategyScores [] edgeLists equalWeights outOfRangeLstm)) = [1, 90, 2, 89]
   \<and> set (topCandidates (fst (strategyScores [] edgeLists equalWeights outOfRangeLstm))) \<subseteq> {1..90}
   \<and> map fst (tacticalNeighbors (fst (strategyScores [] edgeLists equalWeights outOfRangeLstm)))
       = map fst (fst (strategyScores [] edgeLists equalWeights outOfRangeLstm))
   \<and> map_of (tacticalNeighbors (fst (strategyScores [] edgeLists equalWeights outOfRangeLstm))) 91
       = map_of (fst (strategyScores [] edgeLists equalWeights outOfRangeLstm)) 91
   \<and> map_of (fst (strategyScores [] edgeLists equalWeights outOfRangeLstm)) 91 = Some NaN
   \<and> map_of (tacticalNeighbors (fst (strategyScores [] edgeLists equalWeights outOfRangeLstm))) 3
       = Some (Num (83 / 3200))"
proof -
  let ?m = "fst (strategyScores [] edgeLists equalWeights outOfRangeLstm)"
  have e: "topCandidates ?m = [1, 90, 2, 89]"
    "map_of ?m 91 = Some NaN"
    "map_of (tacticalNeighbors ?m) 3 = Some (Num (83 / 3200))"
    by code_simp+
  have "?m = fst (strategyScores [] edgeLists equalWeights outOfRangeLstm) \<longrightarrow>
         set (topCandidates ?m) \<subseteq> {1..90}
         \<and> map fst (tacticalNeighbors ?m) = map fst ?m
         \<and> (\<forall>k. k < 1 \<or> 90 < k \<longrightarrow> map_of (tacticalNeighbors ?m) k = map_of ?m k)"
    using neighbors_stay_in_range [of ?m "[]" edgeLists equalWeights outOfRangeLstm]
    by blast
  then have p: "set (topCandidates ?m) \<subseteq> {1..90}"
    "map fst (tacticalNeighbors ?m) = map fst ?m"
    "\<forall>k. k < 1 \<or> 90 < k \<longrightarrow> map_of (tacticalNeighbors ?m) k = map_of ?m k"
    by blast+
  from p(3) have q: "map_of (tacticalNeighbors ?m) 91 = map_of ?m 91"
    by simp
  from e p(1,2) q show ?thesis
    by blast
qed

section \<open>The weights of the brain\<close>





























end
